theory Spec2Isabelle
  imports Main "HOL-Library.Word"
begin

unbundle bit_operations_syntax

section \<open>Package sonyflakex: data model\<close>

text \<open>
  Go's \<open>int\<close> (the machine ID) and \<open>time.Duration\<close> (an \<open>int64\<close> count of
  nanoseconds) are 64-bit words compared as signed numbers. A \<open>time.Time\<close> is an instant,
  counted in nanoseconds on an unbounded axis.
\<close>

type_synonym go_int = "64 word"
type_synonym Duration = "64 word"
type_synonym Time = int

definition Millisecond :: Duration where
  "Millisecond = 1000000"

definition Second :: Duration where
  "Second = 1000000000"

text \<open>
  Error values. The five package-level sentinels, \<open>errors.New\<close> with its message,
  the three shapes of \<open>fmt.Errorf\<close> the package uses, and errors that come from a
  collaborator (the repo or the sonyflake library).
\<close>

datatype error =
    ErrInvalidStartTime
  | ErrInvalidTimeUnit
  | ErrAcquireMachineID
  | ErrReleaseMachineID
  | ErrInvalidBitLength
  | ErrorsNew string
  | Errorf_w string error
  | Errorf_w_v error error
  | Errorf_machine go_int go_int
  | Foreign string

text \<open>
  \<open>errors.Is\<close>: the chain of \<open>%w\<close> wrappers is followed; an error formatted with
  \<open>%v\<close> is text only and is not part of the chain.
\<close>

fun errors_Is :: "error \<Rightarrow> error \<Rightarrow> bool" where
  "errors_Is (Errorf_w m e) target = (Errorf_w m e = target \<or> errors_Is e target)"
| "errors_Is (Errorf_w_v s c) target = (Errorf_w_v s c = target \<or> errors_Is s target)"
| "errors_Is e target = (e = target)"

text \<open>
  A \<open>context.Context\<close> as the package builds it: the background context, or a
  context with a timeout derived from a parent.
\<close>

datatype Context = Background | WithTimeout Context Duration

text \<open>
  The \<open>Repo\<close> interface. An implementation is any three operations over a store of
  its own (\<open>'r\<close>); each call returns its result and the store after the call.
  \<open>AcquireMachineID\<close> returns \<open>(int, error)\<close>: the model returns the error or the
  machine ID, as \<open>New\<close> reads the ID only when the error is nil.
\<close>

record 'r Repo =
  AcquireMachineID :: "'r \<Rightarrow> Context \<Rightarrow> Duration \<Rightarrow> (error + go_int) \<times> 'r"
  RenewMachineID :: "'r \<Rightarrow> Context \<Rightarrow> go_int \<Rightarrow> Duration \<Rightarrow> error option \<times> 'r"
  ReleaseMachineID :: "'r \<Rightarrow> Context \<Rightarrow> go_int \<Rightarrow> error option \<times> 'r"

text \<open>Every call made on the repo is recorded, in call order.\<close>

datatype call =
    Acquire Context Duration
  | Renew Context go_int Duration
  | Release Context go_int

fun is_Acquire :: "call \<Rightarrow> bool" where
  "is_Acquire (Acquire c d) = True"
| "is_Acquire _ = False"

fun is_Renew :: "call \<Rightarrow> bool" where
  "is_Renew (Renew c m d) = True"
| "is_Renew _ = False"

fun is_Release :: "call \<Rightarrow> bool" where
  "is_Release (Release c m) = True"
| "is_Release _ = False"

text \<open>
  The world outside the package: the repo's store, the record of calls made on the repo,
  and the wall clock. The \<open>n\<close>-th call of \<open>time.Now()\<close> reads \<open>clock n\<close>.
\<close>

record 'r World =
  rstate :: 'r
  calls :: "call list"
  clock :: "nat \<Rightarrow> Time"
  ticks :: nat

definition time_Now :: "'r World \<Rightarrow> Time \<times> 'r World" where
  "time_Now w = (clock w (ticks w), w\<lparr>ticks := Suc (ticks w)\<rparr>)"

definition repo_Acquire ::
  "'r Repo \<Rightarrow> Context \<Rightarrow> Duration \<Rightarrow> 'r World \<Rightarrow> (error + go_int) \<times> 'r World" where
  "repo_Acquire rp ctx d w =
     (case AcquireMachineID rp (rstate w) ctx d of
        (res, r') \<Rightarrow> (res, w\<lparr>rstate := r', calls := calls w @ [Acquire ctx d]\<rparr>))"

definition repo_Renew ::
  "'r Repo \<Rightarrow> Context \<Rightarrow> go_int \<Rightarrow> Duration \<Rightarrow> 'r World \<Rightarrow> error option \<times> 'r World" where
  "repo_Renew rp ctx m d w =
     (case RenewMachineID rp (rstate w) ctx m d of
        (res, r') \<Rightarrow> (res, w\<lparr>rstate := r', calls := calls w @ [Renew ctx m d]\<rparr>))"

definition repo_Release ::
  "'r Repo \<Rightarrow> Context \<Rightarrow> go_int \<Rightarrow> 'r World \<Rightarrow> error option \<times> 'r World" where
  "repo_Release rp ctx m w =
     (case ReleaseMachineID rp (rstate w) ctx m of
        (res, r') \<Rightarrow> (res, w\<lparr>rstate := r', calls := calls w @ [Release ctx m]\<rparr>))"

text \<open>
  \<open>sonyflake.Settings\<close>, the fields this package sets. The two callbacks are function
  values; \<open>None\<close> is Go's nil.
\<close>

record Settings =
  StartTime :: Time
  TimeUnit :: Duration
  MachineID :: "(unit \<Rightarrow> error + go_int) option"
  CheckMachineID :: "(go_int \<Rightarrow> bool) option"

record generatorConfig =
  settings :: Settings
  ttl :: Duration
  renewFreq :: Duration

text \<open>\<open>sync.Once\<close>: the flag \<open>done\<close> and the mutex \<open>m\<close> with its holder.\<close>

record 't Once =
  once_done :: bool
  once_m :: "'t option"

text \<open>
  The Generator. A channel of \<open>struct{}\<close> that is only ever closed is its closed flag.
  \<open>'sf\<close> is the encoder \<open>*sonyflake.Sonyflake\<close>.
\<close>

record ('r, 'sf, 't) Generator =
  sf :: 'sf
  repo :: "'r Repo"
  machineID :: go_int
  stopChan :: bool
  doneChan :: bool
  stopOnce :: "'t Once"
  stopErr :: "error option"
  g_ttl :: Duration
  g_renewFreq :: Duration

definition defaultBitsMachine :: nat where
  "defaultBitsMachine = 16"

definition defaultBitsSequence :: nat where
  "defaultBitsSequence = 8"

text \<open>\<open>time.Date(2025, 1, 1, 0, 0, 0, 0, time.UTC)\<close> in nanoseconds since the Unix epoch.\<close>

definition defaultStartTime :: Time where
  "defaultStartTime = 1735689600 * 1000000000"

definition defaultGeneratorConfig :: generatorConfig where
  "defaultGeneratorConfig =
     \<lparr> settings = \<lparr> StartTime = defaultStartTime, TimeUnit = 10 * Millisecond,
                     MachineID = None, CheckMachineID = None \<rparr>,
       ttl = 30 * Second,
       renewFreq = 10 * Second \<rparr>"

section \<open>Options and validation\<close>

text \<open>
  An \<open>Option\<close> is a function on the unexported \<open>generatorConfig\<close>, so outside the
  package its values are those of the four exported constructors (and nil, whose call
  panics; it is left out). Applying one returns the error, or the updated configuration
  (the source assigns the field only after its check has passed).
\<close>

datatype Option =
    WithStartTime Time
  | WithTimeUnit Duration
  | WithTTL Duration
  | WithRenewFrequency Duration

fun apply_Option ::
  "Option \<Rightarrow> generatorConfig \<Rightarrow> 'r World \<Rightarrow> (error + generatorConfig) \<times> 'r World" where
  "apply_Option (WithStartTime t) c w =
     (case time_Now w of (now, w') \<Rightarrow>
        if t > now then (Inl ErrInvalidStartTime, w')
        else (Inr (c\<lparr>settings := (settings c)\<lparr>StartTime := t\<rparr>\<rparr>), w'))"
| "apply_Option (WithTimeUnit d) c w =
     (if d <s Millisecond then (Inl ErrInvalidTimeUnit, w)
      else (Inr (c\<lparr>settings := (settings c)\<lparr>TimeUnit := d\<rparr>\<rparr>), w))"
| "apply_Option (WithTTL d) c w =
     (if d \<le>s 0 then (Inl (ErrorsNew ''ttl must be positive''), w)
      else (Inr (c\<lparr>ttl := d\<rparr>), w))"
| "apply_Option (WithRenewFrequency d) c w =
     (if d \<le>s 0 then (Inl (ErrorsNew ''renew frequency must be positive''), w)
      else (Inr (c\<lparr>renewFreq := d\<rparr>), w))"

definition validateConfig :: "generatorConfig \<Rightarrow> 'r World \<Rightarrow> error option \<times> 'r World" where
  "validateConfig cfg w =
     (case time_Now w of (now, w') \<Rightarrow>
        if StartTime (settings cfg) > now then (Some ErrInvalidStartTime, w')
        else if TimeUnit (settings cfg) <s Millisecond then (Some ErrInvalidTimeUnit, w')
        else if ttl cfg \<le>s 0 \<or> renewFreq cfg \<le>s 0
          then (Some (ErrorsNew ''TTL and renew frequency must be positive''), w')
        else if ttl cfg \<le>s renewFreq cfg
          then (Some (ErrorsNew ''renew frequency must be less than TTL''), w')
        else (None, w'))"

text \<open>The loop of \<open>New\<close> over its options: it stops at the first option that fails.\<close>

fun apply_opts ::
  "Option list \<Rightarrow> generatorConfig \<Rightarrow> 'r World \<Rightarrow> (error + generatorConfig) \<times> 'r World" where
  "apply_opts [] c w = (Inr c, w)"
| "apply_opts (opt # opts) c w =
     (case apply_Option opt c w of
        (Inl err, w') \<Rightarrow> (Inl (Errorf_w ''apply option failed'' err), w')
      | (Inr c', w') \<Rightarrow> apply_opts opts c' w')"

section \<open>Construction\<close>

text \<open>
  \<open>New\<close>. The constructor of the encoder, \<open>sonyflake.New\<close>, belongs to the library
  \<open>github.com/sony/sonyflake/v2\<close>; it is the parameter \<open>sfNew\<close>, which sees the settings
  and the world and returns the encoder or an error. It has no access to the repo.
  The goroutine started by \<open>go g.heartbeat()\<close> is the heartbeat thread of the system
  of section "Heartbeat and Stop", which starts from the Generator returned here.
\<close>

definition New ::
  "(Settings \<Rightarrow> 'r World \<Rightarrow> error + 'sf) \<Rightarrow> 'r Repo option \<Rightarrow> Option list \<Rightarrow> 'r World
     \<Rightarrow> (error + ('r, 'sf, 't) Generator) \<times> 'r World" where
  "New sfNew repo_opt opts w =
     (case repo_opt of
        None \<Rightarrow> (Inl (ErrorsNew ''sonyflakex repo is required''), w)
      | Some rp \<Rightarrow>
         (case apply_opts opts defaultGeneratorConfig w of
            (Inl err, w1) \<Rightarrow> (Inl err, w1)
          | (Inr cfg, w1) \<Rightarrow>
             (case validateConfig cfg w1 of
                (Some err, w2) \<Rightarrow> (Inl err, w2)
              | (None, w2) \<Rightarrow>
                 (let ctx = WithTimeout Background (5 * Second) in
                  case repo_Acquire rp ctx (ttl cfg) w2 of
                    (Inl err, w3) \<Rightarrow> (Inl (Errorf_w_v ErrAcquireMachineID err), w3)
                  | (Inr mid, w3) \<Rightarrow>
                     (let maxMachineID = (push_bit defaultBitsMachine 1 :: go_int) in
                      if mid <s 0 \<or> maxMachineID \<le>s mid then
                        (case repo_Release rp ctx mid w3 of
                           (_, w4) \<Rightarrow> (Inl (Errorf_machine mid (maxMachineID - 1)), w4))
                      else
                        (let st = (settings cfg)
                               \<lparr> MachineID := Some (\<lambda>_. Inr mid),
                                 CheckMachineID := Some (\<lambda>i. i = mid) \<rparr> in
                         case sfNew st w3 of
                           Inl err \<Rightarrow>
                             (case repo_Release rp ctx mid w3 of
                                (_, w4) \<Rightarrow>
                                  (Inl (Errorf_w ''sonyflake initialization failed'' err), w4))
                         | Inr s \<Rightarrow>
                             (Inr \<lparr> sf = s, repo = rp, machineID = mid,
                                    stopChan = False, doneChan = False,
                                    stopOnce = \<lparr> once_done = False, once_m = None \<rparr>,
                                    stopErr = None,
                                    g_ttl = ttl cfg, g_renewFreq = renewFreq cfg \<rparr>, w3)))))))"

text \<open>
  What a list of options asks for: the assignments of the options, without their checks.
\<close>

fun assign_Option :: "Option \<Rightarrow> generatorConfig \<Rightarrow> generatorConfig" where
  "assign_Option (WithStartTime t) c = c\<lparr>settings := (settings c)\<lparr>StartTime := t\<rparr>\<rparr>"
| "assign_Option (WithTimeUnit d) c = c\<lparr>settings := (settings c)\<lparr>TimeUnit := d\<rparr>\<rparr>"
| "assign_Option (WithTTL d) c = c\<lparr>ttl := d\<rparr>"
| "assign_Option (WithRenewFrequency d) c = c\<lparr>renewFreq := d\<rparr>"

definition requested :: "Option list \<Rightarrow> generatorConfig" where
  "requested opts = foldl (\<lambda>c opt. assign_Option opt c) defaultGeneratorConfig opts"

section \<open>Heartbeat and Stop\<close>

text \<open>
  The running system of one Generator: the heartbeat goroutine started by \<open>New\<close>, any
  number of threads calling \<open>Stop\<close> and \<open>NextID\<close>, and the world. Every thread has a
  program counter; a step of the system is one atomic step of one thread, and a run is
  any interleaving of such steps.

  The program counter of the heartbeat goroutine, for
  \<^verbatim>\<open>
  func (g *Generator) heartbeat() {
      ticker := time.NewTicker(g.renewFreq)
      defer ticker.Stop()
      defer close(g.doneChan)
      for {
          select {
          case <-ticker.C:
              ctx, cancel := context.WithTimeout(context.Background(), 5*time.Second)
              _ = g.repo.RenewMachineID(ctx, g.machineID, g.ttl)
              cancel()
          case <-g.stopChan:
              return
          }
      }
  }
  \<close>
  \<^item> \<open>HB_Start\<close>: started, before \<open>time.NewTicker\<close> (which panics on a duration that
    is not positive);
  \<^item> \<open>HB_Select\<close>: at the \<open>select\<close>;
  \<^item> \<open>HB_Renew res\<close>: inside the call of \<open>RenewMachineID\<close>, which will return \<open>res\<close>;
  \<^item> \<open>HB_Return\<close>: the \<open>return\<close> is executed, the deferred calls are pending;
  \<^item> \<open>HB_TickerStop\<close>: the deferred \<open>close(g.doneChan)\<close> has run (it was deferred last,
    so it runs first), the deferred \<open>ticker.Stop()\<close> is pending;
  \<^item> \<open>HB_Exited\<close>: the goroutine has ended.
\<close>

datatype hb_pc =
    HB_Start
  | HB_Select
  | HB_Renew "error option"
  | HB_Return
  | HB_TickerStop
  | HB_Exited

text \<open>
  The program counter of a thread in \<open>Stop\<close>, for
  \<^verbatim>\<open>
  func (g *Generator) Stop(ctx context.Context) error {
      g.stopOnce.Do(func() {
          close(g.stopChan)
          <-g.doneChan
          if err := g.repo.ReleaseMachineID(ctx, g.machineID); err != nil {
              g.stopErr = fmt.Errorf("%w: %v", ErrReleaseMachineID, err)
          }
      })
      return g.stopErr
  }
  \<close>
  with \<open>sync.Once\<close> of the Go library:
  \<^verbatim>\<open>
  func (o *Once) Do(f func()) {
      if o.done.Load() == 0 { o.doSlow(f) }
  }
  func (o *Once) doSlow(f func()) {
      o.m.Lock()
      defer o.m.Unlock()
      if o.done.Load() == 0 {
          defer o.done.Store(1)
          f()
      }
  }
  \<close>
  \<^item> \<open>Idle\<close>: not in \<open>Stop\<close>;
  \<^item> \<open>S_Do ctx\<close>: in \<open>Do\<close>, before the first load of \<open>done\<close>;
  \<^item> \<open>S_Lock ctx\<close>: in \<open>doSlow\<close>, at \<open>o.m.Lock()\<close>;
  \<^item> \<open>S_Check ctx\<close>: holding the mutex, before the second load of \<open>done\<close>;
  \<^item> \<open>S_Close ctx\<close>: in the function passed to \<open>Do\<close>, before \<open>close(g.stopChan)\<close>;
  \<^item> \<open>S_Wait ctx\<close>: at the receive from \<open>g.doneChan\<close>;
  \<^item> \<open>S_Release ctx\<close>: before the call of \<open>ReleaseMachineID\<close>;
  \<^item> \<open>S_Released res\<close>: inside that call, which will return \<open>res\<close>;
  \<^item> \<open>S_Store\<close>: the function has returned, before the deferred \<open>o.done.Store(1)\<close>;
  \<^item> \<open>S_Unlock\<close>: before the deferred \<open>o.m.Unlock()\<close>;
  \<^item> \<open>S_Ret\<close>: after \<open>Do\<close>, before \<open>return g.stopErr\<close>.
\<close>

datatype stop_pc =
    Idle
  | S_Do Context
  | S_Lock Context
  | S_Check Context
  | S_Close Context
  | S_Wait Context
  | S_Release Context
  | S_Released "error option"
  | S_Store
  | S_Unlock
  | S_Ret

text \<open>
  The state of the system. \<open>returns\<close> records the result of every call of \<open>Stop\<close>
  that has returned and \<open>ids\<close> the result of every call of \<open>NextID\<close>, each with its
  thread and in the order of the returns; \<open>crashed\<close> is set when a step panics (the
  ticker on a non-positive duration, the close of a closed channel), which ends the
  program.
\<close>

record ('r, 'sf) System =
  gen :: "('r, 'sf, nat) Generator"
  world :: "'r World"
  hb :: hb_pc
  pcs :: "nat \<Rightarrow> stop_pc"
  returns :: "(nat \<times> error option) list"
  ids :: "(nat \<times> (error + 64 word)) list"
  crashed :: bool

text \<open>
  The actions: a step of the heartbeat (at the \<open>select\<close> it takes the given case; the
  ticker's case is ready whenever the ticker has fired, which may be at any time, the
  other case once \<open>stopChan\<close> is closed), a thread calling \<open>Stop\<close> with a context, the
  next step of a thread inside \<open>Stop\<close>, and a thread calling \<open>NextID\<close>.
\<close>

datatype select_case = TickerC | StopChan

datatype action =
    Heartbeat select_case
  | Stop nat Context
  | Step nat
  | NextID nat

text \<open>The system right after \<open>New\<close> has returned \<open>g\<close> and executed \<open>go g.heartbeat()\<close>.\<close>

definition spawn :: "('r, 'sf, nat) Generator \<Rightarrow> 'r World \<Rightarrow> ('r, 'sf) System" where
  "spawn g w = \<lparr> gen = g, world = w, hb = HB_Start, pcs = (\<lambda>_. Idle),
                 returns = [], ids = [], crashed = False \<rparr>"

text \<open>One step of the heartbeat; \<open>None\<close> when it is blocked or has ended.\<close>

definition heartbeat :: "select_case \<Rightarrow> ('r, 'sf) System \<Rightarrow> ('r, 'sf) System option" where
  "heartbeat sel s =
     (let g = gen s in
      case hb s of
        HB_Start \<Rightarrow>
          if g_renewFreq g \<le>s 0 then Some (s\<lparr>crashed := True\<rparr>)
          else Some (s\<lparr>hb := HB_Select\<rparr>)
      | HB_Select \<Rightarrow>
          (case sel of
             TickerC \<Rightarrow>
               (case repo_Renew (repo g) (WithTimeout Background (5 * Second))
                       (machineID g) (g_ttl g) (world s) of
                  (res, w') \<Rightarrow> Some (s\<lparr>world := w', hb := HB_Renew res\<rparr>))
           | StopChan \<Rightarrow>
               if stopChan g then Some (s\<lparr>hb := HB_Return\<rparr>) else None)
      | HB_Renew res \<Rightarrow> Some (s\<lparr>hb := HB_Select\<rparr>)
      | HB_Return \<Rightarrow>
          if doneChan g then Some (s\<lparr>crashed := True\<rparr>)
          else Some (s\<lparr>gen := g\<lparr>doneChan := True\<rparr>, hb := HB_TickerStop\<rparr>)
      | HB_TickerStop \<Rightarrow> Some (s\<lparr>hb := HB_Exited\<rparr>)
      | HB_Exited \<Rightarrow> None)"

text \<open>One step of thread \<open>t\<close> inside \<open>Stop\<close>; \<open>None\<close> when it is blocked.\<close>

definition Stop_step :: "nat \<Rightarrow> ('r, 'sf) System \<Rightarrow> ('r, 'sf) System option" where
  "Stop_step t s =
     (let g = gen s; once = stopOnce g in
      case pcs s t of
        Idle \<Rightarrow> None
      | S_Do ctx \<Rightarrow>
          if once_done once then Some (s\<lparr>pcs := (pcs s)(t := S_Ret)\<rparr>)
          else Some (s\<lparr>pcs := (pcs s)(t := S_Lock ctx)\<rparr>)
      | S_Lock ctx \<Rightarrow>
          (case once_m once of
             Some h \<Rightarrow> None
           | None \<Rightarrow> Some (s\<lparr>gen := g\<lparr>stopOnce := once\<lparr>once_m := Some t\<rparr>\<rparr>,
                             pcs := (pcs s)(t := S_Check ctx)\<rparr>))
      | S_Check ctx \<Rightarrow>
          if once_done once then Some (s\<lparr>pcs := (pcs s)(t := S_Unlock)\<rparr>)
          else Some (s\<lparr>pcs := (pcs s)(t := S_Close ctx)\<rparr>)
      | S_Close ctx \<Rightarrow>
          if stopChan g then Some (s\<lparr>crashed := True\<rparr>)
          else Some (s\<lparr>gen := g\<lparr>stopChan := True\<rparr>, pcs := (pcs s)(t := S_Wait ctx)\<rparr>)
      | S_Wait ctx \<Rightarrow>
          if doneChan g then Some (s\<lparr>pcs := (pcs s)(t := S_Release ctx)\<rparr>) else None
      | S_Release ctx \<Rightarrow>
          (case repo_Release (repo g) ctx (machineID g) (world s) of
             (res, w') \<Rightarrow> Some (s\<lparr>world := w', pcs := (pcs s)(t := S_Released res)\<rparr>))
      | S_Released res \<Rightarrow>
          (case res of
             Some err \<Rightarrow>
               Some (s\<lparr>gen := g\<lparr>stopErr := Some (Errorf_w_v ErrReleaseMachineID err)\<rparr>,
                       pcs := (pcs s)(t := S_Store)\<rparr>)
           | None \<Rightarrow> Some (s\<lparr>pcs := (pcs s)(t := S_Store)\<rparr>))
      | S_Store \<Rightarrow>
          Some (s\<lparr>gen := g\<lparr>stopOnce := once\<lparr>once_done := True\<rparr>\<rparr>,
                  pcs := (pcs s)(t := S_Unlock)\<rparr>)
      | S_Unlock \<Rightarrow>
          Some (s\<lparr>gen := g\<lparr>stopOnce := once\<lparr>once_m := None\<rparr>\<rparr>,
                  pcs := (pcs s)(t := S_Ret)\<rparr>)
      | S_Ret \<Rightarrow>
          Some (s\<lparr>returns := returns s @ [(t, stopErr g)], pcs := (pcs s)(t := Idle)\<rparr>))"

text \<open>
  \<open>Generator.NextID\<close> is \<open>return g.sf.NextID()\<close>. The encoder's \<open>NextID\<close> is the
  parameter \<open>nx\<close>: from the encoder's state, the clock and the number of clock readings
  made, it returns its result, the new state and the new number of readings, or \<open>None\<close>
  when it does not return. The encoder runs it under its own mutex, so it is one step.
\<close>

definition Generator_NextID ::
  "('sf \<Rightarrow> (nat \<Rightarrow> Time) \<Rightarrow> nat \<Rightarrow> ((error + 64 word) \<times> 'sf \<times> nat) option)
     \<Rightarrow> ('r, 'sf, 't) Generator \<Rightarrow> 'r World
     \<Rightarrow> ((error + 64 word) \<times> ('r, 'sf, 't) Generator \<times> 'r World) option" where
  "Generator_NextID nx g w =
     (case nx (sf g) (clock w) (ticks w) of
        None \<Rightarrow> None
      | Some (res, sf', k) \<Rightarrow> Some (res, g\<lparr>sf := sf'\<rparr>, w\<lparr>ticks := k\<rparr>))"

text \<open>One step of the system; no step is possible after a panic.\<close>

definition step ::
  "('sf \<Rightarrow> (nat \<Rightarrow> Time) \<Rightarrow> nat \<Rightarrow> ((error + 64 word) \<times> 'sf \<times> nat) option)
     \<Rightarrow> action \<Rightarrow> ('r, 'sf) System \<Rightarrow> ('r, 'sf) System option" where
  "step nx a s =
     (if crashed s then None
      else case a of
        Heartbeat sel \<Rightarrow> heartbeat sel s
      | Stop t ctx \<Rightarrow>
          (case pcs s t of
             Idle \<Rightarrow> Some (s\<lparr>pcs := (pcs s)(t := S_Do ctx)\<rparr>)
           | _ \<Rightarrow> None)
      | Step t \<Rightarrow> Stop_step t s
      | NextID t \<Rightarrow>
          (case pcs s t of
             Idle \<Rightarrow>
               (case Generator_NextID nx (gen s) (world s) of
                  None \<Rightarrow> None
                | Some (res, g', w') \<Rightarrow>
                    Some (s\<lparr>gen := g', world := w', ids := ids s @ [(t, res)]\<rparr>))
           | _ \<Rightarrow> None))"

text \<open>A run: the steps of a schedule, one after the other; \<open>None\<close> when a step of the
  schedule is not possible.\<close>

fun run ::
  "('sf \<Rightarrow> (nat \<Rightarrow> Time) \<Rightarrow> nat \<Rightarrow> ((error + 64 word) \<times> 'sf \<times> nat) option)
     \<Rightarrow> action list \<Rightarrow> ('r, 'sf) System \<Rightarrow> ('r, 'sf) System option" where
  "run nx [] s = Some s"
| "run nx (a # as) s = (case step nx a s of None \<Rightarrow> None | Some s' \<Rightarrow> run nx as s')"

text \<open>The calls made on the repo since the system was started with the calls \<open>cs0\<close>.\<close>

definition new_calls :: "call list \<Rightarrow> ('r, 'sf) System \<Rightarrow> call list" where
  "new_calls cs0 s = drop (length cs0) (calls (world s))"

text \<open>No renewal is called after a release.\<close>

fun renew_before_release :: "call list \<Rightarrow> bool" where
  "renew_before_release [] = True"
| "renew_before_release (c # cs) =
     ((is_Release c \<longrightarrow> \<not> list_ex is_Renew cs) \<and> renew_before_release cs)"

section \<open>The invariant of the running system\<close>

text \<open>
  Notions for stating what holds in every state of a run. \<open>locked\<close>: the program
  counters at which a thread holds the mutex of the \<open>sync.Once\<close>; \<open>in_body\<close>: those
  inside the function passed to \<open>Do\<close>, the teardown; \<open>stage\<close>: how far the teardown
  has got; \<open>fpc\<close>: the program counter of the holder of the mutex; \<open>hb_left_loop\<close>:
  the heartbeat has executed its \<open>return\<close> and closed \<open>doneChan\<close>.
\<close>

fun locked :: "stop_pc \<Rightarrow> bool" where
  "locked (S_Check ctx) = True"
| "locked (S_Close ctx) = True"
| "locked (S_Wait ctx) = True"
| "locked (S_Release ctx) = True"
| "locked (S_Released res) = True"
| "locked S_Store = True"
| "locked S_Unlock = True"
| "locked _ = False"

fun stage :: "stop_pc \<Rightarrow> nat" where
  "stage (S_Wait ctx) = 1"
| "stage (S_Release ctx) = 2"
| "stage (S_Released res) = 3"
| "stage S_Store = 4"
| "stage _ = 0"

fun in_body :: "stop_pc \<Rightarrow> bool" where
  "in_body (S_Close ctx) = True"
| "in_body (S_Wait ctx) = True"
| "in_body (S_Release ctx) = True"
| "in_body (S_Released res) = True"
| "in_body S_Store = True"
| "in_body _ = False"

definition fpc :: "('r, 'sf) System \<Rightarrow> stop_pc" where
  "fpc s = (case once_m (stopOnce (gen s)) of None \<Rightarrow> Idle | Some t \<Rightarrow> pcs s t)"

fun hb_left_loop :: "hb_pc \<Rightarrow> bool" where
  "hb_left_loop HB_TickerStop = True"
| "hb_left_loop HB_Exited = True"
| "hb_left_loop _ = False"

text \<open>
  The invariant, in parts: no panic; mutual exclusion; a thread past \<open>Do\<close> has seen it
  done; the teardown runs only while the \<open>Once\<close> is not done; the channels follow the
  stage of the teardown; so does the number of releases; \<open>stopErr\<close> is written before
  the \<open>Once\<close> is done and every returned result equals it; \<open>doneChan\<close> is closed
  exactly when the heartbeat has left its loop, which it does after \<open>stopChan\<close> is
  closed only; the record of calls grows at its end, and no renewal follows a release.
\<close>

definition I_basic :: "('r, 'sf) System \<Rightarrow> bool" where
  "I_basic s \<longleftrightarrow> \<not> crashed s \<and> \<not> g_renewFreq (gen s) \<le>s 0"

definition I_mutex :: "('r, 'sf) System \<Rightarrow> bool" where
  "I_mutex s \<longleftrightarrow> (\<forall>t. locked (pcs s t) \<longleftrightarrow> once_m (stopOnce (gen s)) = Some t)"

definition I_ret :: "('r, 'sf) System \<Rightarrow> bool" where
  "I_ret s \<longleftrightarrow> (\<forall>t. pcs s t = S_Ret \<longrightarrow> once_done (stopOnce (gen s)))"

definition I_body :: "('r, 'sf) System \<Rightarrow> bool" where
  "I_body s \<longleftrightarrow>
     (once_done (stopOnce (gen s)) \<longrightarrow> \<not> in_body (fpc s))
   \<and> (\<not> once_done (stopOnce (gen s)) \<longrightarrow> fpc s \<noteq> S_Unlock)"

definition I_chan :: "('r, 'sf) System \<Rightarrow> bool" where
  "I_chan s \<longleftrightarrow>
     (stopChan (gen s) \<longleftrightarrow> once_done (stopOnce (gen s)) \<or> 1 \<le> stage (fpc s))
   \<and> (once_done (stopOnce (gen s)) \<or> 2 \<le> stage (fpc s) \<longrightarrow> doneChan (gen s))"

definition I_rel :: "call list \<Rightarrow> ('r, 'sf) System \<Rightarrow> bool" where
  "I_rel cs0 s \<longleftrightarrow>
     length (filter is_Release (new_calls cs0 s))
        = (if once_done (stopOnce (gen s)) \<or> 3 \<le> stage (fpc s) then 1 else 0)"

definition I_err :: "('r, 'sf) System \<Rightarrow> bool" where
  "I_err s \<longleftrightarrow>
     (\<not> once_done (stopOnce (gen s)) \<and> stage (fpc s) \<le> 3 \<longrightarrow> stopErr (gen s) = None)
   \<and> (returns s \<noteq> [] \<longrightarrow> once_done (stopOnce (gen s)))
   \<and> (\<forall>x \<in> set (returns s). snd x = stopErr (gen s))"

definition I_hb :: "('r, 'sf) System \<Rightarrow> bool" where
  "I_hb s \<longleftrightarrow>
     (doneChan (gen s) \<longleftrightarrow> hb_left_loop (hb s))
   \<and> (hb s = HB_Return \<or> hb_left_loop (hb s) \<longrightarrow> stopChan (gen s))"

definition I_log :: "call list \<Rightarrow> ('r, 'sf) System \<Rightarrow> bool" where
  "I_log cs0 s \<longleftrightarrow>
     calls (world s) = cs0 @ new_calls cs0 s \<and> renew_before_release (new_calls cs0 s)"

definition Inv :: "call list \<Rightarrow> ('r, 'sf) System \<Rightarrow> bool" where
  "Inv cs0 s \<longleftrightarrow>
     I_basic s \<and> I_mutex s \<and> I_ret s \<and> I_body s \<and> I_chan s \<and> I_rel cs0 s \<and> I_err s
   \<and> I_hb s \<and> I_log cs0 s"

text \<open>
  A schedule in which thread \<open>t\<close> calls \<open>Stop\<close> on a freshly started system and
  runs to its return, the heartbeat taking its steps when \<open>Stop\<close> waits for it; and
  a schedule for a later call of \<open>Stop\<close>.
\<close>

definition first_Stop :: "nat \<Rightarrow> Context \<Rightarrow> action list" where
  "first_Stop t ctx =
     [Stop t ctx, Step t, Step t, Step t, Step t,
      Heartbeat StopChan, Heartbeat StopChan, Heartbeat StopChan,
      Step t, Step t, Step t, Step t, Step t, Step t]"

definition later_Stop :: "nat \<Rightarrow> Context \<Rightarrow> action list" where
  "later_Stop t ctx = [Stop t ctx, Step t, Step t]"

definition fresh :: "('r, 'sf, nat) Generator \<Rightarrow> bool" where
  "fresh g \<longleftrightarrow> \<not> stopChan g \<and> \<not> doneChan g \<and> \<not> once_done (stopOnce g)
      \<and> once_m (stopOnce g) = None \<and> stopErr g = None \<and> \<not> g_renewFreq g \<le>s 0"

section \<open>The identifier encoder\<close>

text \<open>
  Modelled from the spec: the encoder \<open>*sonyflake.Sonyflake\<close> of the library
  \<open>github.com/sony/sonyflake/v2\<close>, whose source is not part of this repository. Its state
  is the one of the spec's data model: the epoch, the time unit in nanoseconds, the last
  elapsed-time value, the sequence and the machine ID.
\<close>

record Sonyflake =
  epoch :: Time
  timeUnit :: int
  lastElapsed :: int
  sequence :: int
  machine :: int

text \<open>
  Modelled from the spec: the width of the elapsed-time field, which the library
  computes; the sign bit is unused, the machine ID has 16 bits and the sequence 8.
\<close>

definition bitsTime :: nat where
  "bitsTime = 63 - defaultBitsMachine - defaultBitsSequence"

text \<open>
  Modelled from the spec: the library's packing of an identifier, the fields laid out
  most significant first as elapsed time, machine ID, sequence. The fields do not overlap,
  so the packing is written as a sum.
\<close>

definition toID :: "int \<Rightarrow> int \<Rightarrow> int \<Rightarrow> 64 word" where
  "toID el mid sq =
     word_of_int (el * 2 ^ (defaultBitsMachine + defaultBitsSequence)
                  + mid * 2 ^ defaultBitsSequence + sq)"

text \<open>
  Modelled from the spec: the library's extraction of the elapsed-time field of an
  identifier.
\<close>

definition time_part :: "64 word \<Rightarrow> int" where
  "time_part i = sint i div 2 ^ (defaultBitsMachine + defaultBitsSequence)"

text \<open>
  Modelled from the spec: the library's extraction of the machine-ID field of an
  identifier.
\<close>

definition machine_part :: "64 word \<Rightarrow> int" where
  "machine_part i = (sint i div 2 ^ defaultBitsSequence) mod 2 ^ defaultBitsMachine"

text \<open>
  Modelled from the spec: the library's extraction of the sequence field of an identifier.
\<close>

definition sequence_part :: "64 word \<Rightarrow> int" where
  "sequence_part i = sint i mod 2 ^ defaultBitsSequence"

text \<open>
  Modelled from the spec: the library's wait for the next time unit when the sequence is
  exhausted, a loop that samples the clock again until the elapsed time has reached the
  target. It returns the number of clock readings made so far, and does not return when
  the clock never gets there.
\<close>

partial_function (option) await_unit ::
  "(nat \<Rightarrow> Time) \<Rightarrow> Time \<Rightarrow> int \<Rightarrow> int \<Rightarrow> nat \<Rightarrow> nat option" where
  "await_unit clk ep u target k =
     (if target \<le> (clk k - ep) div u then Some (Suc k)
      else await_unit clk ep u target (Suc k))"

text \<open>
  Modelled from the spec: the last step of the library's \<open>NextID\<close>, which packs the
  identifier of the new state and fails with the overflow error when the elapsed time
  does not fit in its field; the state is kept as it was when the call fails.
\<close>

definition emit ::
  "Sonyflake \<Rightarrow> Sonyflake \<Rightarrow> nat \<Rightarrow> ((error + 64 word) \<times> Sonyflake \<times> nat) option" where
  "emit old new k =
     (if 2 ^ bitsTime \<le> lastElapsed new then Some (Inl (Foreign ''over the time limit''), old, k)
      else Some (Inr (toID (lastElapsed new) (machine new) (sequence new)), new, k))"

text \<open>
  Modelled from the spec: the library's \<open>Sonyflake.NextID\<close>, by the four steps of the
  spec. It reads the clock from reading number \<open>k\<close> on and returns the result, the new
  state and the number of readings made. The spec gives no step for a clock reading
  that lies before the last elapsed time; the model makes that an error.
\<close>

definition sonyflake_NextID ::
  "Sonyflake \<Rightarrow> (nat \<Rightarrow> Time) \<Rightarrow> nat \<Rightarrow> ((error + 64 word) \<times> Sonyflake \<times> nat) option" where
  "sonyflake_NextID e clk k =
     (let now = clk k in
      if now < epoch e then Some (Inl (Foreign ''over the time limit''), e, Suc k)
      else
        let elapsed = (now - epoch e) div timeUnit e in
        if 2 ^ bitsTime \<le> elapsed then Some (Inl (Foreign ''over the time limit''), e, Suc k)
        else if elapsed = lastElapsed e then
          (if sequence e + 1 < 2 ^ defaultBitsSequence
           then emit e (e\<lparr>sequence := sequence e + 1\<rparr>) (Suc k)
           else
             (case await_unit clk (epoch e) (timeUnit e) (lastElapsed e + 1) (Suc k) of
                None \<Rightarrow> None
              | Some k' \<Rightarrow> emit e (e\<lparr>lastElapsed := lastElapsed e + 1, sequence := 0\<rparr>) k'))
        else if lastElapsed e < elapsed
          then emit e (e\<lparr>lastElapsed := elapsed, sequence := 0\<rparr>) (Suc k)
        else Some (Inl (Foreign ''clock before the last elapsed time''), e, Suc k))"

text \<open>Modelled from the spec: the library's \<open>Sonyflake.ToTime\<close>.\<close>

definition sonyflake_ToTime :: "Sonyflake \<Rightarrow> 64 word \<Rightarrow> Time" where
  "sonyflake_ToTime e i = epoch e + time_part i * timeUnit e"

text \<open>
  Modelled from the spec: the library's \<open>Sonyflake.Decompose\<close>, a map from the names
  of the parts to their values.
\<close>

definition sonyflake_Decompose :: "Sonyflake \<Rightarrow> 64 word \<Rightarrow> (string \<rightharpoonup> 64 word)" where
  "sonyflake_Decompose e i =
     [''id'' \<mapsto> i,
      ''time'' \<mapsto> word_of_int (time_part i),
      ''machine-id'' \<mapsto> word_of_int (machine_part i),
      ''sequence'' \<mapsto> word_of_int (sequence_part i)]"

text \<open>
  Modelled from the spec: the library's constructor \<open>sonyflake.New\<close>. The encoder takes
  the epoch and the time unit of the settings and the machine ID that the \<open>MachineID\<close>
  callback returns, which must fit the machine-ID field and pass \<open>CheckMachineID\<close>.
  The spec leaves the first values of the last elapsed time and of the sequence open;
  they are 0 here, and no property below depends on them.
\<close>

definition sonyflake_New :: "Settings \<Rightarrow> 'r World \<Rightarrow> error + Sonyflake" where
  "sonyflake_New st w =
     (case MachineID st of
        None \<Rightarrow> Inl (Foreign ''no machine id'')
      | Some f \<Rightarrow>
         (case f () of
            Inl err \<Rightarrow> Inl err
          | Inr mid \<Rightarrow>
              if mid <s 0 \<or> push_bit defaultBitsMachine 1 \<le>s mid
                 \<or> (case CheckMachineID st of None \<Rightarrow> False | Some chk \<Rightarrow> \<not> chk mid)
              then Inl (Foreign ''invalid machine id'')
              else Inr \<lparr> epoch = StartTime st, timeUnit = sint (TimeUnit st),
                         lastElapsed = 0, sequence = 0, machine = sint mid \<rparr>))"

text \<open>\<open>Generator.ToTime\<close> and \<open>Generator.Decompose\<close> hand the identifier to the encoder.\<close>

definition Generator_ToTime ::
  "('sf \<Rightarrow> 64 word \<Rightarrow> Time) \<Rightarrow> ('r, 'sf, 't) Generator \<Rightarrow> 64 word \<Rightarrow> Time" where
  "Generator_ToTime tt g i = tt (sf g) i"

definition Generator_Decompose ::
  "('sf \<Rightarrow> 64 word \<Rightarrow> (string \<rightharpoonup> 64 word)) \<Rightarrow> ('r, 'sf, 't) Generator \<Rightarrow> 64 word
     \<Rightarrow> (string \<rightharpoonup> 64 word)" where
  "Generator_Decompose dc g i = dc (sf g) i"

text \<open>The identifiers returned by the successful calls, in call order.\<close>

fun successes :: "(nat \<times> (error + 64 word)) list \<Rightarrow> 64 word list" where
  "successes [] = []"
| "successes ((t, Inr i) # rs) = i # successes rs"
| "successes ((t, Inl e) # rs) = successes rs"

text \<open>
  Notions for the properties of the identifiers: the number that the encoder's state
  packs to, the bounds that its fields keep, the actions that call \<open>NextID\<close>, and what
  holds of the encoder and of the identifiers returned in every state of a run.
\<close>

definition key :: "Sonyflake \<Rightarrow> int" where
  "key e = lastElapsed e * 16777216 + machine e * 256 + sequence e"

definition wf_sf :: "Sonyflake \<Rightarrow> bool" where
  "wf_sf e \<longleftrightarrow> 0 < timeUnit e \<and> 0 \<le> sequence e \<and> sequence e < 256
      \<and> 0 \<le> machine e \<and> machine e < 65536"

definition is_NextID :: "action \<Rightarrow> bool" where
  "is_NextID a = (case a of NextID t \<Rightarrow> True | _ \<Rightarrow> False)"

definition J :: "int \<Rightarrow> Time \<Rightarrow> int \<Rightarrow> ('r, Sonyflake) System \<Rightarrow> bool" where
  "J mid ep u s \<longleftrightarrow>
     wf_sf (sf (gen s)) \<and> machine (sf (gen s)) = mid
   \<and> epoch (sf (gen s)) = ep \<and> timeUnit (sf (gen s)) = u
   \<and> sorted_wrt (\<lambda>a b. sint a < sint b) (successes (ids s))
   \<and> (\<forall>i \<in> set (successes (ids s)). sint i \<le> key (sf (gen s)) \<and> machine_part i = mid)"


section \<open>Test doubles\<close>

text \<open>
  The \<open>MockRepo\<close> of the package's tests with \<open>acquireFunc\<close> and \<open>releaseFunc\<close>
  set to functions returning a fixed result; renewal succeeds. A world whose clock
  stands still at a given instant, with no call made yet.
\<close>

definition MockRepo :: "(error + go_int) \<Rightarrow> error option \<Rightarrow> unit Repo" where
  "MockRepo acq rel =
     \<lparr> AcquireMachineID = (\<lambda>r ctx d. (acq, r)),
       RenewMachineID = (\<lambda>r ctx i d. (None, r)),
       ReleaseMachineID = (\<lambda>r ctx i. (rel, r)) \<rparr>"

definition world0 :: "Time \<Rightarrow> unit World" where
  "world0 now = \<lparr> rstate = (), calls = [], clock = (\<lambda>_. now), ticks = 0 \<rparr>"

definition demo_Generator :: "error option \<Rightarrow> (unit, unit, nat) Generator" where
  "demo_Generator rel =
     \<lparr> sf = (), repo = MockRepo (Inr 7) rel, machineID = 7,
       stopChan = False, doneChan = False,
       stopOnce = \<lparr> once_done = False, once_m = None \<rparr>,
       stopErr = None, g_ttl = 30 * Second, g_renewFreq = 10 * Second \<rparr>"

definition demo_world :: "unit World" where
  "demo_world =
     \<lparr> rstate = (), calls = [Acquire (WithTimeout Background (5 * Second)) (30 * Second)],
       clock = (\<lambda>_. defaultStartTime + 1), ticks = 1 \<rparr>"

definition two_callers :: "action list" where
  "two_callers =
     [Stop 0 Background, Stop 1 Background, Step 0, Step 1, Step 0, Step 0, Step 0,
      Heartbeat TickerC, Heartbeat TickerC, Heartbeat TickerC,
      Heartbeat StopChan, Heartbeat StopChan,
      Step 0, Step 0, Step 0, Step 0, Step 0,
      Step 1, Step 1, Step 1, Step 1, Step 0, Heartbeat TickerC]"


definition ticking_world :: "unit World" where
  "ticking_world =
     \<lparr> rstate = (), calls = [],
       clock = (\<lambda>n. defaultStartTime + 25000000 + int n * 4000000), ticks = 0 \<rparr>"

definition ticking_Generator :: "(unit, Sonyflake, nat) Generator" where
  "ticking_Generator =
     \<lparr> sf = \<lparr> epoch = defaultStartTime, timeUnit = 10000000, lastElapsed = 0, sequence = 0,
              machine = 7 \<rparr>,
       repo = MockRepo (Inr 7) None, machineID = 7,
       stopChan = False, doneChan = False,
       stopOnce = \<lparr> once_done = False, once_m = None \<rparr>,
       stopErr = None, g_ttl = 30 * Second, g_renewFreq = 10 * Second \<rparr>"

definition ticking_started :: "unit World" where
  "ticking_started =
     ticking_world\<lparr> calls := [Acquire (WithTimeout Background (5 * Second)) (30 * Second)],
                    ticks := 1 \<rparr>"

section \<open>Properties of construction\<close>

lemma apply_Option_world:
  "apply_Option opt c w = (r, w') \<Longrightarrow>
     rstate w' = rstate w \<and> calls w' = calls w \<and> clock w' = clock w"
  by (cases opt) (auto simp: time_Now_def split: if_splits)

lemma apply_opts_world:
  "apply_opts opts c w = (r, w') \<Longrightarrow>
     rstate w' = rstate w \<and> calls w' = calls w \<and> clock w' = clock w"
proof (induction opts arbitrary: c w)
  case Nil
  then show ?case by simp
next
  case (Cons opt opts)
  obtain r1 w1 where a: "apply_Option opt c w = (r1, w1)" by (cases "apply_Option opt c w")
  note w1 = apply_Option_world [OF a]
  show ?case
  proof (cases r1)
    case (Inl e)
    with Cons.prems a w1 show ?thesis by simp
  next
    case (Inr c')
    with Cons.prems a have "apply_opts opts c' w1 = (r, w')" by simp
    from Cons.IH [OF this] w1 show ?thesis by simp
  qed
qed

lemma validateConfig_world:
  "validateConfig cfg w = (r, w') \<Longrightarrow>
     rstate w' = rstate w \<and> calls w' = calls w \<and> clock w' = clock w"
  by (auto simp: validateConfig_def time_Now_def split: if_splits)


lemma apply_Option_error:
  "apply_Option opt c w = (Inl e, w') \<Longrightarrow>
     e \<in> {ErrInvalidStartTime, ErrInvalidTimeUnit, ErrorsNew ''ttl must be positive'',
          ErrorsNew ''renew frequency must be positive''}"
  by (cases opt) (auto simp: time_Now_def split: if_splits)

lemma apply_opts_error:
  "apply_opts opts c w = (Inl e, w') \<Longrightarrow>
     \<exists>e0. e = Errorf_w ''apply option failed'' e0 \<and>
       e0 \<in> {ErrInvalidStartTime, ErrInvalidTimeUnit, ErrorsNew ''ttl must be positive'',
          ErrorsNew ''renew frequency must be positive''}"
proof (induction opts arbitrary: c w)
  case Nil
  then show ?case by simp
next
  case (Cons opt opts)
  obtain r1 w1 where a: "apply_Option opt c w = (r1, w1)" by (cases "apply_Option opt c w")
  show ?case
  proof (cases r1)
    case (Inl e1)
    with Cons.prems a apply_Option_error [of opt c w e1 w1] show ?thesis by auto
  next
    case (Inr c')
    with Cons.prems a have "apply_opts opts c' w1 = (Inl e, w')" by simp
    from Cons.IH [OF this] show ?thesis .
  qed
qed

lemma validateConfig_error:
  "validateConfig cfg w = (Some e, w') \<Longrightarrow>
     e \<in> {ErrInvalidStartTime, ErrInvalidTimeUnit,
         ErrorsNew ''TTL and renew frequency must be positive'',
         ErrorsNew ''renew frequency must be less than TTL''}"
  by (auto simp: validateConfig_def time_Now_def split: if_splits)

text \<open>Failure before acquisition: the repo is not touched.\<close>

lemma New_invalid:
  assumes "New sfNew (Some rp) opts w = (res, w')"
    and "\<not> (\<exists>cfg w1 w2. apply_opts opts defaultGeneratorConfig w = (Inr cfg, w1)
            \<and> validateConfig cfg w1 = (None, w2))"
  shows "isl res \<and> calls w' = calls w \<and> rstate w' = rstate w
       \<and> \<not> errors_Is (projl res) ErrAcquireMachineID"
proof -
  obtain r1 w1 where a: "apply_opts opts defaultGeneratorConfig w = (r1, w1)"
    by (cases "apply_opts opts defaultGeneratorConfig w")
  note k1 = apply_opts_world [OF a]
  show ?thesis
  proof (cases r1)
    case (Inl e)
    from apply_opts_error [of opts defaultGeneratorConfig w e w1] a Inl
    have "\<not> errors_Is e ErrAcquireMachineID" by auto
    with assms(1) a k1 Inl show ?thesis
      by (auto simp: New_def)
  next
    case (Inr cfg)
    obtain r2 w2 where b: "validateConfig cfg w1 = (r2, w2)"
      by (cases "validateConfig cfg w1")
    note k2 = validateConfig_world [OF b]
    from assms(2) a b Inr obtain e where e: "r2 = Some e" by (cases r2) auto
    from validateConfig_error [of cfg w1 e w2] b e
    have "\<not> errors_Is e ErrAcquireMachineID" by auto
    with assms(1) a b Inr e k1 k2 show ?thesis
      by (auto simp: New_def)
  qed
qed



text \<open>
  Claim C3. When the configuration is valid and \<open>AcquireMachineID\<close> returns a machine ID
  that is negative or at least 65536, \<open>New\<close> returns an error and no Generator, and it
  calls \<open>ReleaseMachineID\<close> exactly once, on that ID, after the acquisition and before
  it returns.
\<close>

theorem New_machine_id_out_of_range:
  assumes new: "New sfNew (Some rp) opts w = (res, w')"
    and cfg: "apply_opts opts defaultGeneratorConfig w = (Inr cfg, w1)"
             "validateConfig cfg w1 = (None, w2)"
    and acq: "AcquireMachineID rp (rstate w) (WithTimeout Background (5 * Second)) (ttl cfg)
                = (Inr mid, r')"
    and bad: "mid <s 0 \<or> 65536 \<le>s mid"
  shows "res = Inl (Errorf_machine mid 65535)
       \<and> calls w' = calls w @ [Acquire (WithTimeout Background (5 * Second)) (ttl cfg),
                               Release (WithTimeout Background (5 * Second)) mid]
       \<and> length (filter is_Release (calls w')) = Suc (length (filter is_Release (calls w)))"
proof -
  from apply_opts_world [OF cfg(1)] validateConfig_world [OF cfg(2)]
  have k: "rstate w2 = rstate w" "calls w2 = calls w" by simp_all
  obtain r4 s4 where rel: "ReleaseMachineID rp r' (WithTimeout Background (5 * Second)) mid = (r4, s4)"
    by (cases "ReleaseMachineID rp r' (WithTimeout Background (5 * Second)) mid")
  from new cfg acq bad k rel show ?thesis
    by (auto simp: New_def repo_Acquire_def repo_Release_def Let_def defaultBitsMachine_def)
qed

theorem New_machine_id_out_of_range_witness:
  "fst (New (\<lambda>st w. Inr ()) (Some (MockRepo (Inr 65536) None))
          [WithStartTime 1577836800000000000] (world0 (defaultStartTime + 1))
        :: (error + (unit, unit, nat) Generator) \<times> unit World)
     = Inl (Errorf_machine 65536 65535)
   \<and> calls (snd (New (\<lambda>st w. Inr ()) (Some (MockRepo (Inr 65536) None))
          [WithStartTime 1577836800000000000] (world0 (defaultStartTime + 1))
        :: (error + (unit, unit, nat) Generator) \<times> unit World))
     = [Acquire (WithTimeout Background (5 * Second)) (30 * Second),
        Release (WithTimeout Background (5 * Second)) 65536]"
proof -
  let ?w = "world0 (defaultStartTime + 1)"
  let ?opts = "[WithStartTime 1577836800000000000]"
  let ?cfg = "defaultGeneratorConfig\<lparr>settings :=
                (settings defaultGeneratorConfig)\<lparr>StartTime := 1577836800000000000\<rparr>\<rparr>"
  have a: "apply_opts ?opts defaultGeneratorConfig ?w = (Inr ?cfg, ?w\<lparr>ticks := 1\<rparr>)"
    by (simp add: world0_def time_Now_def defaultStartTime_def)
  have b: "validateConfig ?cfg (?w\<lparr>ticks := 1\<rparr>) = (None, ?w\<lparr>ticks := 2\<rparr>)"
    by (simp add: validateConfig_def world0_def time_Now_def defaultStartTime_def
        defaultGeneratorConfig_def Millisecond_def Second_def word_sless_alt word_sle_eq)
  have c: "AcquireMachineID (MockRepo (Inr 65536) None) (rstate ?w)
             (WithTimeout Background (5 * Second)) (ttl ?cfg) = (Inr 65536, ())"
    by (simp add: MockRepo_def)
  have d: "(65536 :: go_int) <s 0 \<or> (65536 :: go_int) \<le>s 65536" by simp
  let ?N = "New (\<lambda>st w. Inr ()) (Some (MockRepo (Inr 65536) None)) ?opts ?w
        :: (error + (unit, unit, nat) Generator) \<times> unit World"
  have n: "?N = (fst ?N, snd ?N)" by simp
  from New_machine_id_out_of_range [OF n a b c d]
  show ?thesis
    by (simp add: defaultGeneratorConfig_def world0_def)
qed

text \<open>
  Claim C9. When a machine ID that fits its field has been acquired and the constructor
  of the encoder then fails, \<open>New\<close> calls \<open>ReleaseMachineID\<close> exactly once on that
  ID and returns the encoder's error, wrapped.
\<close>

theorem New_encoder_failure_releases:
  assumes new: "New sfNew (Some rp) opts w = (res, w')"
    and cfg: "apply_opts opts defaultGeneratorConfig w = (Inr cfg, w1)"
             "validateConfig cfg w1 = (None, w2)"
    and acq: "AcquireMachineID rp (rstate w) (WithTimeout Background (5 * Second)) (ttl cfg)
                = (Inr mid, r')"
    and ok: "\<not> mid <s 0" "\<not> 65536 \<le>s mid"
    and sf: "sfNew ((settings cfg)\<lparr> MachineID := Some (\<lambda>_. Inr mid),
                                     CheckMachineID := Some (\<lambda>i. i = mid) \<rparr>)
                   (w2\<lparr>rstate := r',
                       calls := calls w2 @ [Acquire (WithTimeout Background (5 * Second)) (ttl cfg)]\<rparr>)
               = Inl e"
  shows "res = Inl (Errorf_w ''sonyflake initialization failed'' e)
       \<and> calls w' = calls w @ [Acquire (WithTimeout Background (5 * Second)) (ttl cfg),
                               Release (WithTimeout Background (5 * Second)) mid]
       \<and> length (filter is_Release (calls w')) = Suc (length (filter is_Release (calls w)))"
proof -
  from apply_opts_world [OF cfg(1)] validateConfig_world [OF cfg(2)]
  have k: "rstate w2 = rstate w" "calls w2 = calls w" by simp_all
  obtain r4 s4 where rel: "ReleaseMachineID rp r' (WithTimeout Background (5 * Second)) mid = (r4, s4)"
    by (cases "ReleaseMachineID rp r' (WithTimeout Background (5 * Second)) mid")
  from new cfg acq ok k rel sf show ?thesis
    by (auto simp: New_def repo_Acquire_def repo_Release_def Let_def defaultBitsMachine_def)
qed

theorem New_encoder_failure_releases_witness:
  "fst (New (\<lambda>st w. Inl (Foreign ''invalid settings'')) (Some (MockRepo (Inr 7) None))
          [] (world0 (defaultStartTime + 1))
        :: (error + (unit, unit, nat) Generator) \<times> unit World)
     = Inl (Errorf_w ''sonyflake initialization failed'' (Foreign ''invalid settings''))
   \<and> calls (snd (New (\<lambda>st w. Inl (Foreign ''invalid settings'')) (Some (MockRepo (Inr 7) None))
          [] (world0 (defaultStartTime + 1))
        :: (error + (unit, unit, nat) Generator) \<times> unit World))
     = [Acquire (WithTimeout Background (5 * Second)) (30 * Second),
        Release (WithTimeout Background (5 * Second)) 7]"
proof -
  let ?w = "world0 (defaultStartTime + 1)"
  let ?cfg = "defaultGeneratorConfig"
  let ?N = "New (\<lambda>st w. Inl (Foreign ''invalid settings'')) (Some (MockRepo (Inr 7) None)) [] ?w
        :: (error + (unit, unit, nat) Generator) \<times> unit World"
  have n: "?N = (fst ?N, snd ?N)" by simp
  have a: "apply_opts [] defaultGeneratorConfig ?w = (Inr ?cfg, ?w)"
    by simp
  have b: "validateConfig ?cfg ?w = (None, ?w\<lparr>ticks := 1\<rparr>)"
    by (simp add: validateConfig_def world0_def time_Now_def defaultStartTime_def
        defaultGeneratorConfig_def Millisecond_def Second_def word_sless_alt word_sle_eq)
  have c: "AcquireMachineID (MockRepo (Inr 7) None) (rstate ?w)
             (WithTimeout Background (5 * Second)) (ttl ?cfg) = (Inr 7, ())"
    by (simp add: MockRepo_def)
  have d: "\<not> (7 :: go_int) <s 0" "\<not> (65536 :: go_int) \<le>s 7"
    by (simp_all add: word_sless_alt word_sle_eq)
  from New_encoder_failure_releases [OF n a b c d refl]
  show ?thesis
    by (simp add: defaultGeneratorConfig_def world0_def)
qed


lemma apply_Option_assign:
  "apply_Option opt c w = (Inr c', w') \<Longrightarrow> c' = assign_Option opt c"
  by (cases opt) (auto simp: time_Now_def split: if_splits)

lemma apply_opts_assign:
  "apply_opts opts c w = (Inr c', w') \<Longrightarrow> c' = foldl (\<lambda>c opt. assign_Option opt c) c opts"
proof (induction opts arbitrary: c w)
  case Nil
  then show ?case by simp
next
  case (Cons opt opts)
  obtain r1 w1 where a: "apply_Option opt c w = (r1, w1)" by (cases "apply_Option opt c w")
  show ?case
  proof (cases r1)
    case (Inl e1)
    with Cons.prems a show ?thesis by simp
  next
    case (Inr c1)
    with Cons.prems a have "apply_opts opts c1 w1 = (Inr c', w')" by simp
    from Cons.IH [OF this] apply_Option_assign [of opt c w c1 w1] a Inr
    show ?thesis by simp
  qed
qed

lemma apply_opts_rejects:
  assumes "opt \<in> set opts" and "\<And>c (w :: 'r World). isl (fst (apply_Option opt c w))"
  shows "isl (fst (apply_opts opts c (w :: 'r World)))"
  using assms(1)
proof (induction opts arbitrary: c w)
  case Nil
  then show ?case by simp
next
  case (Cons o1 opts)
  obtain r1 w1 where a: "apply_Option o1 c w = (r1, w1)" by (cases "apply_Option o1 c w")
  show ?case
  proof (cases r1)
    case (Inl e1)
    with a show ?thesis by simp
  next
    case (Inr c1)
    with a assms(2) [of c w] have "o1 \<noteq> opt" by auto
    with Cons.prems have "opt \<in> set opts" by simp
    from Cons.IH [OF this, of c1 w1] a Inr show ?thesis by simp
  qed
qed

lemma validateConfig_None:
  "validateConfig cfg w = (None, w') \<Longrightarrow>
     \<not> StartTime (settings cfg) > clock w (ticks w)
   \<and> \<not> TimeUnit (settings cfg) <s Millisecond
   \<and> \<not> ttl cfg \<le>s 0 \<and> \<not> renewFreq cfg \<le>s 0 \<and> \<not> ttl cfg \<le>s renewFreq cfg"
  by (auto simp: validateConfig_def time_Now_def split: if_splits)

text \<open>
  Claim C4. \<open>New\<close> fails on a nil repo, on an option that sets a time unit below one
  millisecond or a TTL or renewal interval that is not positive, and on a configuration
  whose renewal interval is not less than its TTL. In each case no call has been made
  on the repo when \<open>New\<close> returns: \<open>AcquireMachineID\<close> is not called.
\<close>

theorem New_invalid_config_before_acquire:
  assumes new: "New sfNew repo_opt opts w = (res, w')"
    and bad: "repo_opt = None
            \<or> (\<exists>d. WithTimeUnit d \<in> set opts \<and> d <s Millisecond)
            \<or> (\<exists>d. WithTTL d \<in> set opts \<and> d \<le>s 0)
            \<or> (\<exists>d. WithRenewFrequency d \<in> set opts \<and> d \<le>s 0)
            \<or> ttl (requested opts) \<le>s renewFreq (requested opts)"
  shows "isl res \<and> calls w' = calls w \<and> rstate w' = rstate w"
proof (cases repo_opt)
  case None
  with new show ?thesis by (auto simp: New_def)
next
  case (Some rp)
  have "\<not> (\<exists>cfg w1 w2. apply_opts opts defaultGeneratorConfig w = (Inr cfg, w1)
            \<and> validateConfig cfg w1 = (None, w2))"
  proof
    assume "\<exists>cfg w1 w2. apply_opts opts defaultGeneratorConfig w = (Inr cfg, w1)
            \<and> validateConfig cfg w1 = (None, w2)"
    then obtain cfg w1 w2 where a: "apply_opts opts defaultGeneratorConfig w = (Inr cfg, w1)"
      and b: "validateConfig cfg w1 = (None, w2)" by blast
    from a have nl: "\<not> isl (fst (apply_opts opts defaultGeneratorConfig w))" by simp
    from apply_opts_assign [OF a] have c: "cfg = requested opts" by (simp add: requested_def)
    from bad Some consider
        (tu) d where "WithTimeUnit d \<in> set opts" "d <s Millisecond"
      | (tt) d where "WithTTL d \<in> set opts" "d \<le>s 0"
      | (rf) d where "WithRenewFrequency d \<in> set opts" "d \<le>s 0"
      | (rel) "ttl (requested opts) \<le>s renewFreq (requested opts)"
      by auto
    then show False
    proof cases
      case tu
      from apply_opts_rejects [OF tu(1), of defaultGeneratorConfig w] tu(2) nl
      show False by simp
    next
      case tt
      from apply_opts_rejects [OF tt(1), of defaultGeneratorConfig w] tt(2) nl
      show False by simp
    next
      case rf
      from apply_opts_rejects [OF rf(1), of defaultGeneratorConfig w] rf(2) nl
      show False by simp
    next
      case rel
      with validateConfig_None [OF b] c show False by simp
    qed
  qed
  from New_invalid [OF new [unfolded Some] this] show ?thesis by simp
qed

theorem New_invalid_config_before_acquire_witness:
  "isl (fst (New (\<lambda>st w. Inr ()) (Some (MockRepo (Inr 7) None))
          [WithTTL (10 * Second), WithRenewFrequency (10 * Second)] (world0 (defaultStartTime + 1))
        :: (error + (unit, unit, nat) Generator) \<times> unit World))
   \<and> calls (snd (New (\<lambda>st w. Inr ()) (Some (MockRepo (Inr 7) None))
          [WithTTL (10 * Second), WithRenewFrequency (10 * Second)] (world0 (defaultStartTime + 1))
        :: (error + (unit, unit, nat) Generator) \<times> unit World)) = []"
proof -
  let ?opts = "[WithTTL (10 * Second), WithRenewFrequency (10 * Second)]"
  let ?N = "New (\<lambda>st w. Inr ()) (Some (MockRepo (Inr 7) None)) ?opts (world0 (defaultStartTime + 1))
        :: (error + (unit, unit, nat) Generator) \<times> unit World"
  have n: "?N = (fst ?N, snd ?N)" by simp
  have b: "ttl (requested ?opts) \<le>s renewFreq (requested ?opts)"
    by (simp add: requested_def)
  from New_invalid_config_before_acquire [OF n] b
  show ?thesis by (simp add: world0_def)
qed

lemma apply_opts_append:
  "apply_opts (pre @ post) c w =
     (case apply_opts pre c w of
        (Inl e, w1) \<Rightarrow> (Inl e, w1)
      | (Inr c1, w1) \<Rightarrow> apply_opts post c1 w1)"
proof (induction pre arbitrary: c w)
  case Nil
  then show ?case by simp
next
  case (Cons opt pre)
  obtain r1 w1 where a: "apply_Option opt c w = (r1, w1)" by (cases "apply_Option opt c w")
  show ?case
  proof (cases r1)
    case (Inl e1)
    with a show ?thesis by simp
  next
    case (Inr c1)
    with a Cons.IH [of c1 w1] show ?thesis by simp
  qed
qed

text \<open>
  Claim C5 as stated fails: a start time equal to the current time is not strictly in
  the past, and both \<open>WithStartTime\<close> and \<open>validateConfig\<close> accept it, as
  \<open>t.After(time.Now())\<close> is false for it. Here the clock stands at the start time that
  is asked for, and \<open>New\<close> returns a Generator.
\<close>

theorem New_start_time_now_counterexample:
  "\<not> isl (fst (New (\<lambda>st w. Inr ()) (Some (MockRepo (Inr 7) None))
          [WithStartTime 1800000000000000000] (world0 1800000000000000000)
        :: (error + (unit, unit, nat) Generator) \<times> unit World))"
  by (simp add: New_def world0_def time_Now_def validateConfig_def defaultGeneratorConfig_def
      repo_Acquire_def MockRepo_def Let_def defaultBitsMachine_def
      Millisecond_def Second_def word_sless_alt word_sle_eq)

text \<open>
  Claim C5, amended. \<open>New\<close> rejects every start time that lies in the future: when an
  option \<open>WithStartTime t\<close> is applied, the options before it having been accepted, and
  \<open>t\<close> is after the clock reading made then, or when the start time of the configuration
  is after the clock reading of \<open>validateConfig\<close>, \<open>New\<close> fails with an error that is
  \<open>ErrInvalidStartTime\<close> by \<open>errors.Is\<close>, and no call is made on the repo.
\<close>

theorem New_start_time_future:
  assumes new: "New sfNew (Some rp) opts w = (res, w')"
    and fut: "(\<exists>pre t post c w1. opts = pre @ WithStartTime t # post
                 \<and> apply_opts pre defaultGeneratorConfig w = (Inr c, w1)
                 \<and> clock w1 (ticks w1) < t)
            \<or> (\<exists>cfg w1. apply_opts opts defaultGeneratorConfig w = (Inr cfg, w1)
                 \<and> clock w1 (ticks w1) < StartTime (settings cfg))"
  shows "isl res \<and> errors_Is (projl res) ErrInvalidStartTime \<and> calls w' = calls w"
  using fut
proof (elim disjE exE conjE)
  fix pre t post c w1
  assume opts: "opts = pre @ WithStartTime t # post"
    and pre: "apply_opts pre defaultGeneratorConfig w = (Inr c, w1)"
    and lt: "clock w1 (ticks w1) < t"
  from pre lt have "apply_opts (pre @ WithStartTime t # post) defaultGeneratorConfig w
        = (Inl (Errorf_w ''apply option failed'' ErrInvalidStartTime), w1\<lparr>ticks := Suc (ticks w1)\<rparr>)"
    by (simp add: apply_opts_append time_Now_def)
  with new opts apply_opts_world [OF pre] show ?thesis
    by (auto simp: New_def)
next
  fix cfg w1
  assume a: "apply_opts opts defaultGeneratorConfig w = (Inr cfg, w1)"
    and lt: "clock w1 (ticks w1) < StartTime (settings cfg)"
  from lt have "validateConfig cfg w1 = (Some ErrInvalidStartTime, w1\<lparr>ticks := Suc (ticks w1)\<rparr>)"
    by (simp add: validateConfig_def time_Now_def)
  with new a apply_opts_world [OF a] show ?thesis
    by (auto simp: New_def)
qed

theorem New_start_time_future_witness:
  "fst (New (\<lambda>st w. Inr ()) (Some (MockRepo (Inr 7) None))
          [WithStartTime 1800000000000000001] (world0 1800000000000000000)
        :: (error + (unit, unit, nat) Generator) \<times> unit World)
     = Inl (Errorf_w ''apply option failed'' ErrInvalidStartTime)
   \<and> calls (snd (New (\<lambda>st w. Inr ()) (Some (MockRepo (Inr 7) None))
          [WithStartTime 1800000000000000001] (world0 1800000000000000000)
        :: (error + (unit, unit, nat) Generator) \<times> unit World)) = []"
proof -
  let ?w = "world0 1800000000000000000"
  let ?N = "New (\<lambda>st w. Inr ()) (Some (MockRepo (Inr 7) None))
          [WithStartTime 1800000000000000001] ?w
        :: (error + (unit, unit, nat) Generator) \<times> unit World"
  have n: "?N = (fst ?N, snd ?N)" by simp
  have "[WithStartTime 1800000000000000001] = [] @ WithStartTime 1800000000000000001 # []
      \<and> apply_opts [] defaultGeneratorConfig ?w = (Inr defaultGeneratorConfig, ?w)
      \<and> clock ?w (ticks ?w) < 1800000000000000001"
    by (simp add: world0_def)
  then have "(\<exists>pre t post c w1. [WithStartTime 1800000000000000001] = pre @ WithStartTime t # post
                 \<and> apply_opts pre defaultGeneratorConfig ?w = (Inr c, w1)
                 \<and> clock w1 (ticks w1) < t)
            \<or> (\<exists>cfg w1. apply_opts [WithStartTime 1800000000000000001] defaultGeneratorConfig ?w
                    = (Inr cfg, w1)
                 \<and> clock w1 (ticks w1) < StartTime (settings cfg))"
    by blast
  from New_start_time_future [OF n this]
  have "isl (fst ?N) \<and> calls (snd ?N) = calls ?w" by simp
  moreover have "fst ?N = Inl (Errorf_w ''apply option failed'' ErrInvalidStartTime)"
    by (simp add: New_def world0_def time_Now_def)
  ultimately show ?thesis by (simp add: world0_def)
qed

section \<open>Properties of the running system\<close>

lemma renew_before_release_snoc:
  "renew_before_release (cs @ [c]) \<longleftrightarrow>
     renew_before_release cs \<and> (is_Renew c \<longrightarrow> \<not> list_ex is_Release cs)"
  by (induction cs) (auto simp: list_ex_iff)

lemma heartbeat_cases:
  assumes "heartbeat sel s = Some s'" and "I_basic s" and "I_hb s"
  shows "(hb s = HB_Start \<and> s' = s\<lparr>hb := HB_Select\<rparr>)
       \<or> (hb s = HB_Select \<and> sel = TickerC \<and>
           (\<exists>res r'. RenewMachineID (repo (gen s)) (rstate (world s))
                        (WithTimeout Background (5 * Second)) (machineID (gen s)) (g_ttl (gen s))
                      = (res, r')
              \<and> s' = s\<lparr>world := (world s)\<lparr>rstate := r',
                           calls := calls (world s) @
                             [Renew (WithTimeout Background (5 * Second)) (machineID (gen s))
                                (g_ttl (gen s))]\<rparr>,
                        hb := HB_Renew res\<rparr>))
       \<or> (hb s = HB_Select \<and> sel = StopChan \<and> stopChan (gen s) \<and> s' = s\<lparr>hb := HB_Return\<rparr>)
       \<or> ((\<exists>res. hb s = HB_Renew res) \<and> s' = s\<lparr>hb := HB_Select\<rparr>)
       \<or> (hb s = HB_Return \<and> \<not> doneChan (gen s)
            \<and> s' = s\<lparr>gen := (gen s)\<lparr>doneChan := True\<rparr>, hb := HB_TickerStop\<rparr>)
       \<or> (hb s = HB_TickerStop \<and> s' = s\<lparr>hb := HB_Exited\<rparr>)"
proof (cases "hb s")
  case HB_Start
  with assms show ?thesis by (simp add: heartbeat_def I_basic_def Let_def)
next
  case HB_Select
  show ?thesis
  proof (cases sel)
    case TickerC
    obtain res r' where r: "RenewMachineID (repo (gen s)) (rstate (world s))
                        (WithTimeout Background (5 * Second)) (machineID (gen s)) (g_ttl (gen s))
                      = (res, r')"
      by (cases "RenewMachineID (repo (gen s)) (rstate (world s))
                        (WithTimeout Background (5 * Second)) (machineID (gen s)) (g_ttl (gen s))")
    with assms(1) HB_Select TickerC show ?thesis
      by (auto simp: heartbeat_def repo_Renew_def Let_def)
  next
    case StopChan
    with assms(1) HB_Select show ?thesis
      by (simp add: heartbeat_def Let_def split: if_splits)
  qed
next
  case (HB_Renew x3)
  with assms show ?thesis by (simp add: heartbeat_def Let_def)
next
  case HB_Return
  with assms show ?thesis by (simp add: heartbeat_def I_hb_def Let_def)
next
  case HB_TickerStop
  with assms show ?thesis by (simp add: heartbeat_def Let_def)
next
  case HB_Exited
  with assms show ?thesis by (simp add: heartbeat_def Let_def)
qed

lemma fpc_frame:
  "pcs s' = pcs s \<Longrightarrow> stopOnce (gen s') = stopOnce (gen s) \<Longrightarrow> fpc s' = fpc s"
  by (simp add: fpc_def split: option.splits)

lemma new_calls_frame:
  "calls (world s') = calls (world s) \<Longrightarrow> new_calls cs0 s' = new_calls cs0 s"
  by (simp add: new_calls_def)

lemma new_calls_append:
  assumes "calls (world s) = cs0 @ new_calls cs0 s"
    and "calls (world s') = calls (world s) @ [c]"
  shows "new_calls cs0 s' = new_calls cs0 s @ [c]"
proof -
  from assms have "calls (world s') = cs0 @ (new_calls cs0 s @ [c])" by simp
  then show ?thesis unfolding new_calls_def [of cs0 s'] by simp
qed

lemma filter_empty_no_ex:
  "length (filter P xs) = 0 \<Longrightarrow> \<not> list_ex P xs"
  by (simp add: list_ex_iff filter_empty_conv)

text \<open>Each part of the invariant reads a few fields of the state only.\<close>

lemma I_basic_frame:
  "I_basic s \<Longrightarrow> crashed s' = crashed s \<Longrightarrow> g_renewFreq (gen s') = g_renewFreq (gen s)
     \<Longrightarrow> I_basic s'"
  by (simp add: I_basic_def)

lemma I_mutex_frame:
  "I_mutex s \<Longrightarrow> pcs s' = pcs s \<Longrightarrow> stopOnce (gen s') = stopOnce (gen s) \<Longrightarrow> I_mutex s'"
  by (simp add: I_mutex_def)

lemma I_ret_frame:
  "I_ret s \<Longrightarrow> pcs s' = pcs s \<Longrightarrow> stopOnce (gen s') = stopOnce (gen s) \<Longrightarrow> I_ret s'"
  by (simp add: I_ret_def)

lemma I_body_frame:
  "I_body s \<Longrightarrow> fpc s' = fpc s \<Longrightarrow> stopOnce (gen s') = stopOnce (gen s) \<Longrightarrow> I_body s'"
  by (simp add: I_body_def)

lemma I_chan_frame:
  "I_chan s \<Longrightarrow> fpc s' = fpc s \<Longrightarrow> stopOnce (gen s') = stopOnce (gen s)
     \<Longrightarrow> stopChan (gen s') = stopChan (gen s) \<Longrightarrow> doneChan (gen s') = doneChan (gen s)
     \<Longrightarrow> I_chan s'"
  by (simp add: I_chan_def)

lemma I_rel_frame:
  "I_rel cs0 s \<Longrightarrow> fpc s' = fpc s \<Longrightarrow> stopOnce (gen s') = stopOnce (gen s)
     \<Longrightarrow> filter is_Release (new_calls cs0 s') = filter is_Release (new_calls cs0 s)
     \<Longrightarrow> I_rel cs0 s'"
  by (simp add: I_rel_def)

lemma I_err_frame:
  "I_err s \<Longrightarrow> fpc s' = fpc s \<Longrightarrow> stopOnce (gen s') = stopOnce (gen s)
     \<Longrightarrow> stopErr (gen s') = stopErr (gen s) \<Longrightarrow> returns s' = returns s \<Longrightarrow> I_err s'"
  by (simp add: I_err_def)

lemma I_hb_frame:
  "I_hb s \<Longrightarrow> hb s' = hb s \<Longrightarrow> stopChan (gen s') = stopChan (gen s)
     \<Longrightarrow> doneChan (gen s') = doneChan (gen s) \<Longrightarrow> I_hb s'"
  by (simp add: I_hb_def)

lemma I_log_frame:
  "I_log cs0 s \<Longrightarrow> calls (world s') = calls (world s) \<Longrightarrow> I_log cs0 s'"
  by (simp add: I_log_def new_calls_def)

text \<open>A step of the heartbeat that moves its program counter only.\<close>

lemma Inv_hb_only:
  assumes inv: "Inv cs0 s" and s': "s' = s\<lparr>hb := p\<rparr>" and h: "I_hb s'"
  shows "Inv cs0 s'"
proof -
  from inv have b: "I_basic s" and mu: "I_mutex s" and rt: "I_ret s" and bd: "I_body s"
    and ch: "I_chan s" and rl: "I_rel cs0 s" and er: "I_err s"
    and lg: "I_log cs0 s"
    by (simp_all add: Inv_def)
  have f: "fpc s' = fpc s" by (rule fpc_frame) (simp_all add: s')
  have n: "new_calls cs0 s' = new_calls cs0 s" by (rule new_calls_frame) (simp add: s')
  have 1: "I_basic s'" by (rule I_basic_frame [OF b]) (simp_all add: s')
  have 2: "I_mutex s'" by (rule I_mutex_frame [OF mu]) (simp_all add: s')
  have 3: "I_ret s'" by (rule I_ret_frame [OF rt]) (simp_all add: s')
  have 4: "I_body s'" by (rule I_body_frame [OF bd f]) (simp add: s')
  have 5: "I_chan s'" by (rule I_chan_frame [OF ch f]) (simp_all add: s')
  have 6: "I_rel cs0 s'" by (rule I_rel_frame [OF rl f]) (simp add: s', simp add: n)
  have 7: "I_err s'" by (rule I_err_frame [OF er f]) (simp_all add: s')
  have 9: "I_log cs0 s'" by (rule I_log_frame [OF lg]) (simp add: s')
  from 1 2 3 4 5 6 7 h 9 show ?thesis by (simp add: Inv_def)
qed

lemma Inv_heartbeat:
  assumes inv: "Inv cs0 s" and st: "heartbeat sel s = Some s'"
  shows "Inv cs0 s'"
proof -
  from inv have b: "I_basic s" and mu: "I_mutex s" and rt: "I_ret s" and bd: "I_body s"
    and ch: "I_chan s" and rl: "I_rel cs0 s" and er: "I_err s" and h: "I_hb s"
    and lg: "I_log cs0 s"
    by (simp_all add: Inv_def)
  from heartbeat_cases [OF st b h] consider
      (start) "hb s = HB_Start" "s' = s\<lparr>hb := HB_Select\<rparr>"
    | (tick) res r' where "hb s = HB_Select"
        "s' = s\<lparr>world := (world s)\<lparr>rstate := r',
                           calls := calls (world s) @
                             [Renew (WithTimeout Background (5 * Second)) (machineID (gen s))
                                (g_ttl (gen s))]\<rparr>,
                        hb := HB_Renew res\<rparr>"
    | (stop) "hb s = HB_Select" "stopChan (gen s)" "s' = s\<lparr>hb := HB_Return\<rparr>"
    | (renewed) res where "hb s = HB_Renew res" "s' = s\<lparr>hb := HB_Select\<rparr>"
    | (ret) "hb s = HB_Return" "\<not> doneChan (gen s)"
         "s' = s\<lparr>gen := (gen s)\<lparr>doneChan := True\<rparr>, hb := HB_TickerStop\<rparr>"
    | (tstop) "hb s = HB_TickerStop" "s' = s\<lparr>hb := HB_Exited\<rparr>"
    by blast
  then show ?thesis
  proof cases
    case start
    from h start(1) have "I_hb s'" by (simp add: I_hb_def start(2))
    from Inv_hb_only [OF inv start(2) this] show ?thesis .
  next
    case tick
    have f: "fpc s' = fpc s" by (rule fpc_frame) (simp_all add: tick)
    from lg have c0: "calls (world s) = cs0 @ new_calls cs0 s" by (simp add: I_log_def)
    have n: "new_calls cs0 s' = new_calls cs0 s @
       [Renew (WithTimeout Background (5 * Second)) (machineID (gen s)) (g_ttl (gen s))]"
      by (rule new_calls_append [OF c0]) (simp add: tick)
    from h tick(1) have nd: "\<not> doneChan (gen s)" by (simp add: I_hb_def)
    with ch have "\<not> (once_done (stopOnce (gen s)) \<or> 2 \<le> stage (fpc s))"
      by (auto simp: I_chan_def)
    then have "\<not> (once_done (stopOnce (gen s)) \<or> 3 \<le> stage (fpc s))" by auto
    with rl have "length (filter is_Release (new_calls cs0 s)) = 0" by (simp add: I_rel_def)
    then have nr: "\<not> list_ex is_Release (new_calls cs0 s)" by (rule filter_empty_no_ex)
    have 1: "I_basic s'" by (rule I_basic_frame [OF b]) (simp_all add: tick)
    have 2: "I_mutex s'" by (rule I_mutex_frame [OF mu]) (simp_all add: tick)
    have 3: "I_ret s'" by (rule I_ret_frame [OF rt]) (simp_all add: tick)
    have 4: "I_body s'" by (rule I_body_frame [OF bd f]) (simp add: tick)
    have 5: "I_chan s'" by (rule I_chan_frame [OF ch f]) (simp_all add: tick)
    have 6: "I_rel cs0 s'" by (rule I_rel_frame [OF rl f]) (simp add: tick(2), simp add: n)
    have 7: "I_err s'" by (rule I_err_frame [OF er f]) (simp_all add: tick)
    have 8: "I_hb s'" using h nd tick(1) by (simp add: I_hb_def tick(2))
    have "calls (world s') = cs0 @ new_calls cs0 s'" using c0 n by (simp add: tick(2))
    moreover have "renew_before_release (new_calls cs0 s')"
      using lg nr by (simp add: n renew_before_release_snoc I_log_def)
    ultimately have 9: "I_log cs0 s'" by (simp add: I_log_def)
    from 1 2 3 4 5 6 7 8 9 show ?thesis by (simp add: Inv_def)
  next
    case stop
    from h stop(1,2) have "I_hb s'" by (simp add: I_hb_def stop(3))
    from Inv_hb_only [OF inv stop(3) this] show ?thesis .
  next
    case renewed
    from h renewed(1) have "I_hb s'" by (simp add: I_hb_def renewed(2))
    from Inv_hb_only [OF inv renewed(2) this] show ?thesis .
  next
    case ret
    have f: "fpc s' = fpc s" by (rule fpc_frame) (simp_all add: ret)
    have n: "new_calls cs0 s' = new_calls cs0 s" by (rule new_calls_frame) (simp add: ret)
    from h ret(1) have sc: "stopChan (gen s)" by (simp add: I_hb_def)
    have 1: "I_basic s'" by (rule I_basic_frame [OF b]) (simp_all add: ret)
    have 2: "I_mutex s'" by (rule I_mutex_frame [OF mu]) (simp_all add: ret)
    have 3: "I_ret s'" by (rule I_ret_frame [OF rt]) (simp_all add: ret)
    have 4: "I_body s'" by (rule I_body_frame [OF bd f]) (simp add: ret)
    have 5: "I_chan s'" using ch by (simp add: I_chan_def f) (simp add: ret)
    have 6: "I_rel cs0 s'" by (rule I_rel_frame [OF rl f]) (simp add: ret(3), simp add: n)
    have 7: "I_err s'" by (rule I_err_frame [OF er f]) (simp_all add: ret)
    have 8: "I_hb s'" using sc by (simp add: I_hb_def ret)
    have 9: "I_log cs0 s'" by (rule I_log_frame [OF lg]) (simp add: ret)
    from 1 2 3 4 5 6 7 8 9 show ?thesis by (simp add: Inv_def)
  next
    case tstop
    from h tstop(1) have "I_hb s'" by (simp add: I_hb_def tstop(2))
    from Inv_hb_only [OF inv tstop(2) this] show ?thesis .
  qed
qed

lemma I_mutex_upd:
  assumes "I_mutex s" and "pcs s' = (pcs s)(t := p)"
    and "once_m (stopOnce (gen s')) = once_m (stopOnce (gen s))"
    and "locked p = locked (pcs s t)"
  shows "I_mutex s'"
  unfolding I_mutex_def
proof
  fix u
  show "locked (pcs s' u) = (once_m (stopOnce (gen s')) = Some u)"
  proof (cases "u = t")
    case True
    with assms show ?thesis by (simp add: I_mutex_def)
  next
    case False
    with assms show ?thesis by (simp add: I_mutex_def)
  qed
qed

lemma I_ret_upd:
  assumes "I_ret s" and "pcs s' = (pcs s)(t := p)"
    and "once_done (stopOnce (gen s)) \<longrightarrow> once_done (stopOnce (gen s'))"
    and "p = S_Ret \<longrightarrow> once_done (stopOnce (gen s'))"
  shows "I_ret s'"
  unfolding I_ret_def
proof (intro allI impI)
  fix u
  assume a: "pcs s' u = S_Ret"
  show "once_done (stopOnce (gen s'))"
  proof (cases "u = t")
    case True
    with assms a show ?thesis by simp
  next
    case False
    with assms a show ?thesis by (auto simp: I_ret_def)
  qed
qed

lemma holder:
  "I_mutex s \<Longrightarrow> locked (pcs s t) \<Longrightarrow> once_m (stopOnce (gen s)) = Some t"
  by (simp add: I_mutex_def)

lemma not_holder:
  "I_mutex s \<Longrightarrow> \<not> locked (pcs s t) \<Longrightarrow> once_m (stopOnce (gen s)) \<noteq> Some t"
  by (simp add: I_mutex_def)

lemma fpc_holder:
  "once_m (stopOnce (gen s)) = Some t \<Longrightarrow> fpc s = pcs s t"
  by (simp add: fpc_def)

lemma fpc_other:
  assumes "once_m (stopOnce (gen s)) \<noteq> Some t" and "pcs s' = (pcs s)(t := p)"
    and "once_m (stopOnce (gen s')) = once_m (stopOnce (gen s))"
  shows "fpc s' = fpc s"
  using assms by (cases "once_m (stopOnce (gen s))") (simp_all add: fpc_def)

lemma fpc_moved:
  assumes "once_m (stopOnce (gen s')) = Some t" and "pcs s' = (pcs s)(t := p)"
  shows "fpc s' = p"
  using assms by (simp add: fpc_def)

text \<open>A thread that does not hold the mutex moves between program counters outside it.\<close>

lemma Inv_unlocked_move:
  assumes inv: "Inv cs0 s" and nl: "\<not> locked (pcs s t)" and np: "\<not> locked p"
    and s': "s' = s\<lparr>pcs := (pcs s)(t := p)\<rparr>"
    and r: "p = S_Ret \<longrightarrow> once_done (stopOnce (gen s))"
  shows "Inv cs0 s'"
proof -
  from inv have b: "I_basic s" and mu: "I_mutex s" and rt: "I_ret s" and bd: "I_body s"
    and ch: "I_chan s" and rl: "I_rel cs0 s" and er: "I_err s" and h: "I_hb s"
    and lg: "I_log cs0 s"
    by (simp_all add: Inv_def)
  have f: "fpc s' = fpc s"
    by (rule fpc_other [OF not_holder [OF mu nl]]) (simp_all add: s')
  have n: "new_calls cs0 s' = new_calls cs0 s" by (rule new_calls_frame) (simp add: s')
  have 1: "I_basic s'" by (rule I_basic_frame [OF b]) (simp_all add: s')
  have 2: "I_mutex s'" by (rule I_mutex_upd [OF mu, of _ t p]) (simp_all add: s' nl np)
  have 3: "I_ret s'" using r by (intro I_ret_upd [OF rt, of _ t p]) (simp_all add: s')
  have 4: "I_body s'" by (rule I_body_frame [OF bd f]) (simp add: s')
  have 5: "I_chan s'" by (rule I_chan_frame [OF ch f]) (simp_all add: s')
  have 6: "I_rel cs0 s'" by (rule I_rel_frame [OF rl f]) (simp add: s', simp add: n)
  have 7: "I_err s'" by (rule I_err_frame [OF er f]) (simp_all add: s')
  have 8: "I_hb s'" by (rule I_hb_frame [OF h]) (simp_all add: s')
  have 9: "I_log cs0 s'" by (rule I_log_frame [OF lg]) (simp add: s')
  from 1 2 3 4 5 6 7 8 9 show ?thesis by (simp add: Inv_def)
qed

lemma Inv_parts:
  assumes "Inv cs0 s"
  shows "I_basic s" "I_mutex s" "I_ret s" "I_body s" "I_chan s" "I_rel cs0 s" "I_err s"
    "I_hb s" "I_log cs0 s"
  using assms by (simp_all add: Inv_def)

text \<open>The holder of the mutex moves its program counter, and nothing else changes.\<close>

lemma Inv_holder_move:
  assumes inv: "Inv cs0 s" and lk: "locked (pcs s t)" and lp: "locked p"
    and s': "s' = s\<lparr>pcs := (pcs s)(t := p)\<rparr>"
    and bd: "I_body s'" and ch: "I_chan s'" and rl: "I_rel cs0 s'" and er: "I_err s'"
  shows "Inv cs0 s'"
proof -
  note p = Inv_parts [OF inv]
  have 1: "I_basic s'" by (rule I_basic_frame [OF p(1)]) (simp_all add: s')
  have 2: "I_mutex s'" by (rule I_mutex_upd [OF p(2), of _ t p]) (simp_all add: s' lk lp)
  have "p \<noteq> S_Ret" using lp by auto
  then have 3: "I_ret s'" by (intro I_ret_upd [OF p(3), of _ t p]) (simp_all add: s')
  have 8: "I_hb s'" by (rule I_hb_frame [OF p(8)]) (simp_all add: s')
  have 9: "I_log cs0 s'" by (rule I_log_frame [OF p(9)]) (simp add: s')
  from 1 2 3 bd ch rl er 8 9 show ?thesis by (simp add: Inv_def)
qed

lemma Inv_Stop_step:
  assumes inv: "Inv cs0 s" and st: "Stop_step t s = Some s'"
  shows "Inv cs0 s'"
proof -
  note p = Inv_parts [OF inv]
  let ?D = "once_done (stopOnce (gen s))"
  show ?thesis
  proof (cases "pcs s t")
    case Idle
    with st show ?thesis by (simp add: Stop_step_def Let_def)
  next
    case (S_Do ctx)
    then have nl: "\<not> locked (pcs s t)" by simp
    show ?thesis
    proof (cases ?D)
      case True
      with st S_Do have s': "s' = s\<lparr>pcs := (pcs s)(t := S_Ret)\<rparr>"
        by (simp add: Stop_step_def Let_def)
      from Inv_unlocked_move [OF inv nl _ s'] True show ?thesis by simp
    next
      case False
      with st S_Do have s': "s' = s\<lparr>pcs := (pcs s)(t := S_Lock ctx)\<rparr>"
        by (simp add: Stop_step_def Let_def)
      from Inv_unlocked_move [OF inv nl _ s'] show ?thesis by simp
    qed
  next
    case (S_Lock ctx)
    then have nl: "\<not> locked (pcs s t)" by simp
    from st S_Lock have m0: "once_m (stopOnce (gen s)) = None"
      and s': "s' = s\<lparr>gen := (gen s)\<lparr>stopOnce := (stopOnce (gen s))\<lparr>once_m := Some t\<rparr>\<rparr>,
                       pcs := (pcs s)(t := S_Check ctx)\<rparr>"
      by (auto simp: Stop_step_def Let_def split: option.splits)
    from m0 have f0: "fpc s = Idle" by (simp add: fpc_def)
    have f: "fpc s' = S_Check ctx" by (rule fpc_moved [of _ t]) (simp_all add: s')
    have acc: "once_done (stopOnce (gen s')) = ?D" "stopChan (gen s') = stopChan (gen s)"
      "doneChan (gen s') = doneChan (gen s)" "stopErr (gen s') = stopErr (gen s)"
      "returns s' = returns s" "new_calls cs0 s' = new_calls cs0 s"
      by (simp_all add: s' new_calls_def)
    have 1: "I_basic s'" by (rule I_basic_frame [OF p(1)]) (simp_all add: s')
    have 2: "I_mutex s'"
      unfolding I_mutex_def
    proof
      fix u
      from p(2) m0 have "\<not> locked (pcs s u)" by (simp add: I_mutex_def)
      then show "locked (pcs s' u) = (once_m (stopOnce (gen s')) = Some u)"
        by (cases "u = t") (auto simp: s')
    qed
    have 3: "I_ret s'" by (intro I_ret_upd [OF p(3), of _ t "S_Check ctx"]) (simp_all add: s')
    have 4: "I_body s'" by (simp add: I_body_def f)
    have 5: "I_chan s'" using p(5) by (simp add: I_chan_def f f0 acc)
    have 6: "I_rel cs0 s'" using p(6) by (simp add: I_rel_def f f0 acc)
    have 7: "I_err s'" using p(7) by (simp add: I_err_def f f0 acc)
    have 8: "I_hb s'" by (rule I_hb_frame [OF p(8)]) (simp_all add: s')
    have 9: "I_log cs0 s'" by (rule I_log_frame [OF p(9)]) (simp add: s')
    from 1 2 3 4 5 6 7 8 9 show ?thesis by (simp add: Inv_def)
  next
    case (S_Check ctx)
    then have lk: "locked (pcs s t)" by simp
    note h = holder [OF p(2) lk]
    from fpc_holder [OF h] S_Check have f0: "fpc s = S_Check ctx" by simp
    show ?thesis
    proof (cases ?D)
      case True
      with st S_Check have s': "s' = s\<lparr>pcs := (pcs s)(t := S_Unlock)\<rparr>"
        by (simp add: Stop_step_def Let_def)
      have f: "fpc s' = S_Unlock" by (rule fpc_moved [of _ t]) (simp_all add: s' h)
      have acc: "once_done (stopOnce (gen s')) = ?D" "stopChan (gen s') = stopChan (gen s)"
        "doneChan (gen s') = doneChan (gen s)" "stopErr (gen s') = stopErr (gen s)"
        "returns s' = returns s" "new_calls cs0 s' = new_calls cs0 s"
        by (simp_all add: s' new_calls_def)
      have 4: "I_body s'" using True by (simp add: I_body_def f acc)
      have 5: "I_chan s'" using p(5) by (simp add: I_chan_def f f0 acc)
      have 6: "I_rel cs0 s'" using p(6) by (simp add: I_rel_def f f0 acc)
      have 7: "I_err s'" using p(7) by (simp add: I_err_def f f0 acc)
      from Inv_holder_move [OF inv lk _ s' 4 5 6 7] show ?thesis by simp
    next
      case False
      with st S_Check have s': "s' = s\<lparr>pcs := (pcs s)(t := S_Close ctx)\<rparr>"
        by (simp add: Stop_step_def Let_def)
      have f: "fpc s' = S_Close ctx" by (rule fpc_moved [of _ t]) (simp_all add: s' h)
      have acc: "once_done (stopOnce (gen s')) = ?D" "stopChan (gen s') = stopChan (gen s)"
        "doneChan (gen s') = doneChan (gen s)" "stopErr (gen s') = stopErr (gen s)"
        "returns s' = returns s" "new_calls cs0 s' = new_calls cs0 s"
        by (simp_all add: s' new_calls_def)
      have 4: "I_body s'" using False by (simp add: I_body_def f acc)
      have 5: "I_chan s'" using p(5) by (simp add: I_chan_def f f0 acc)
      have 6: "I_rel cs0 s'" using p(6) by (simp add: I_rel_def f f0 acc)
      have 7: "I_err s'" using p(7) by (simp add: I_err_def f f0 acc)
      from Inv_holder_move [OF inv lk _ s' 4 5 6 7] show ?thesis by simp
    qed
  next
    case (S_Close ctx)
    then have lk: "locked (pcs s t)" by simp
    note h = holder [OF p(2) lk]
    from fpc_holder [OF h] S_Close have f0: "fpc s = S_Close ctx" by simp
    from p(4) f0 have nd: "\<not> ?D" by (auto simp: I_body_def)
    from p(5) f0 nd have nsc: "\<not> stopChan (gen s)" by (simp add: I_chan_def)
    from st S_Close nsc
    have s': "s' = s\<lparr>gen := (gen s)\<lparr>stopChan := True\<rparr>, pcs := (pcs s)(t := S_Wait ctx)\<rparr>"
      by (simp add: Stop_step_def Let_def)
    have f: "fpc s' = S_Wait ctx" by (rule fpc_moved [of _ t]) (simp_all add: s' h)
    have acc: "once_done (stopOnce (gen s')) = ?D" "stopChan (gen s') = True"
      "doneChan (gen s') = doneChan (gen s)" "stopErr (gen s') = stopErr (gen s)"
      "returns s' = returns s" "new_calls cs0 s' = new_calls cs0 s" "hb s' = hb s"
      by (simp_all add: s' new_calls_def)
    have 1: "I_basic s'" by (rule I_basic_frame [OF p(1)]) (simp_all add: s')
    have 2: "I_mutex s'" by (rule I_mutex_upd [OF p(2), of _ t "S_Wait ctx"]) (simp_all add: s' lk)
    have 3: "I_ret s'" by (intro I_ret_upd [OF p(3), of _ t "S_Wait ctx"]) (simp_all add: s')
    have 4: "I_body s'" using nd by (simp add: I_body_def f acc)
    have 5: "I_chan s'" using p(5) nd by (simp add: I_chan_def f f0 acc)
    have 6: "I_rel cs0 s'" using p(6) by (simp add: I_rel_def f f0 acc)
    have 7: "I_err s'" using p(7) by (simp add: I_err_def f f0 acc)
    have 8: "I_hb s'" using p(8) by (simp add: I_hb_def acc)
    have 9: "I_log cs0 s'" by (rule I_log_frame [OF p(9)]) (simp add: s')
    from 1 2 3 4 5 6 7 8 9 show ?thesis by (simp add: Inv_def)
  next
    case (S_Wait ctx)
    then have lk: "locked (pcs s t)" by simp
    note h = holder [OF p(2) lk]
    from fpc_holder [OF h] S_Wait have f0: "fpc s = S_Wait ctx" by simp
    from p(4) f0 have nd: "\<not> ?D" by (auto simp: I_body_def)
    from st S_Wait have dc: "doneChan (gen s)"
      and s': "s' = s\<lparr>pcs := (pcs s)(t := S_Release ctx)\<rparr>"
      by (auto simp: Stop_step_def Let_def split: if_splits)
    have f: "fpc s' = S_Release ctx" by (rule fpc_moved [of _ t]) (simp_all add: s' h)
    have acc: "once_done (stopOnce (gen s')) = ?D" "stopChan (gen s') = stopChan (gen s)"
      "doneChan (gen s') = doneChan (gen s)" "stopErr (gen s') = stopErr (gen s)"
      "returns s' = returns s" "new_calls cs0 s' = new_calls cs0 s"
      by (simp_all add: s' new_calls_def)
    have 4: "I_body s'" using nd by (simp add: I_body_def f acc)
    have 5: "I_chan s'" using p(5) dc by (simp add: I_chan_def f f0 acc)
    have 6: "I_rel cs0 s'" using p(6) by (simp add: I_rel_def f f0 acc)
    have 7: "I_err s'" using p(7) by (simp add: I_err_def f f0 acc)
    from Inv_holder_move [OF inv lk _ s' 4 5 6 7] show ?thesis by simp
  next
    case (S_Release ctx)
    then have lk: "locked (pcs s t)" by simp
    note h = holder [OF p(2) lk]
    from fpc_holder [OF h] S_Release have f0: "fpc s = S_Release ctx" by simp
    from p(4) f0 have nd: "\<not> ?D" by (auto simp: I_body_def)
    obtain res r' where rel: "ReleaseMachineID (repo (gen s)) (rstate (world s)) ctx
        (machineID (gen s)) = (res, r')"
      by (cases "ReleaseMachineID (repo (gen s)) (rstate (world s)) ctx (machineID (gen s))")
    with st S_Release
    have s': "s' = s\<lparr>world := (world s)\<lparr>rstate := r',
                          calls := calls (world s) @ [Release ctx (machineID (gen s))]\<rparr>,
                       pcs := (pcs s)(t := S_Released res)\<rparr>"
      by (simp add: Stop_step_def Let_def repo_Release_def)
    have f: "fpc s' = S_Released res" by (rule fpc_moved [of _ t]) (simp_all add: s' h)
    from p(9) have c0: "calls (world s) = cs0 @ new_calls cs0 s" by (simp add: I_log_def)
    have n: "new_calls cs0 s' = new_calls cs0 s @ [Release ctx (machineID (gen s))]"
      by (rule new_calls_append [OF c0]) (simp add: s')
    have acc: "once_done (stopOnce (gen s')) = ?D" "stopChan (gen s') = stopChan (gen s)"
      "doneChan (gen s') = doneChan (gen s)" "stopErr (gen s') = stopErr (gen s)"
      "returns s' = returns s" "hb s' = hb s"
      by (simp_all add: s')
    have 1: "I_basic s'" by (rule I_basic_frame [OF p(1)]) (simp_all add: s')
    have 2: "I_mutex s'"
      by (rule I_mutex_upd [OF p(2), of _ t "S_Released res"]) (simp_all add: s' lk)
    have 3: "I_ret s'" by (intro I_ret_upd [OF p(3), of _ t "S_Released res"]) (simp_all add: s')
    have 4: "I_body s'" using nd by (simp add: I_body_def f acc)
    have 5: "I_chan s'" using p(5) by (simp add: I_chan_def f f0 acc)
    have 6: "I_rel cs0 s'" using p(6) nd by (simp add: I_rel_def f f0 acc n)
    have 7: "I_err s'" using p(7) by (simp add: I_err_def f f0 acc)
    have 8: "I_hb s'" using p(8) by (simp add: I_hb_def acc)
    have "calls (world s') = cs0 @ new_calls cs0 s'" using c0 n by (simp add: s')
    moreover have "renew_before_release (new_calls cs0 s')"
      using p(9) by (simp add: n renew_before_release_snoc I_log_def)
    ultimately have 9: "I_log cs0 s'" by (simp add: I_log_def)
    from 1 2 3 4 5 6 7 8 9 show ?thesis by (simp add: Inv_def)
  next
    case (S_Released res)
    then have lk: "locked (pcs s t)" by simp
    note h = holder [OF p(2) lk]
    from fpc_holder [OF h] S_Released have f0: "fpc s = S_Released res" by simp
    from p(4) f0 have nd: "\<not> ?D" by (auto simp: I_body_def)
    from p(7) nd have nr: "returns s = []" by (auto simp: I_err_def)
    from st S_Released obtain e where
      s': "s' = s\<lparr>gen := (gen s)\<lparr>stopErr := e\<rparr>, pcs := (pcs s)(t := S_Store)\<rparr>"
    proof (cases res)
      case None
      from p(7) f0 nd have "stopErr (gen s) = None" by (simp add: I_err_def)
      then have "(gen s)\<lparr>stopErr := None\<rparr> = gen s" by simp
      with st S_Released None that [of None] show ?thesis
        by (simp add: Stop_step_def Let_def)
    next
      case (Some err)
      with st S_Released that [of "Some (Errorf_w_v ErrReleaseMachineID err)"] show ?thesis
        by (simp add: Stop_step_def Let_def)
    qed
    have f: "fpc s' = S_Store" by (rule fpc_moved [of _ t]) (simp_all add: s' h)
    have acc: "once_done (stopOnce (gen s')) = ?D" "stopChan (gen s') = stopChan (gen s)"
      "doneChan (gen s') = doneChan (gen s)"
      "returns s' = returns s" "new_calls cs0 s' = new_calls cs0 s" "hb s' = hb s"
      by (simp_all add: s' new_calls_def)
    have 1: "I_basic s'" by (rule I_basic_frame [OF p(1)]) (simp_all add: s')
    have 2: "I_mutex s'" by (rule I_mutex_upd [OF p(2), of _ t "S_Store"]) (simp_all add: s' lk)
    have 3: "I_ret s'" by (intro I_ret_upd [OF p(3), of _ t "S_Store"]) (simp_all add: s')
    have 4: "I_body s'" using nd by (simp add: I_body_def f acc)
    have 5: "I_chan s'" using p(5) by (simp add: I_chan_def f f0 acc)
    have 6: "I_rel cs0 s'" using p(6) by (simp add: I_rel_def f f0 acc)
    have 7: "I_err s'" using nd nr by (simp add: I_err_def f acc)
    have 8: "I_hb s'" using p(8) by (simp add: I_hb_def acc)
    have 9: "I_log cs0 s'" by (rule I_log_frame [OF p(9)]) (simp add: s')
    from 1 2 3 4 5 6 7 8 9 show ?thesis by (simp add: Inv_def)
  next
    case S_Store
    then have lk: "locked (pcs s t)" by simp
    note h = holder [OF p(2) lk]
    from fpc_holder [OF h] S_Store have f0: "fpc s = S_Store" by simp
    from p(4) f0 have nd: "\<not> ?D" by (auto simp: I_body_def)
    from p(7) nd have nr: "returns s = []" by (auto simp: I_err_def)
    from st S_Store
    have s': "s' = s\<lparr>gen := (gen s)\<lparr>stopOnce := (stopOnce (gen s))\<lparr>once_done := True\<rparr>\<rparr>,
                       pcs := (pcs s)(t := S_Unlock)\<rparr>"
      by (simp add: Stop_step_def Let_def)
    have f: "fpc s' = S_Unlock" by (rule fpc_moved [of _ t]) (simp_all add: s' h)
    have acc: "once_done (stopOnce (gen s')) = True" "stopChan (gen s') = stopChan (gen s)"
      "doneChan (gen s') = doneChan (gen s)" "stopErr (gen s') = stopErr (gen s)"
      "returns s' = returns s" "new_calls cs0 s' = new_calls cs0 s" "hb s' = hb s"
      by (simp_all add: s' new_calls_def)
    have 1: "I_basic s'" by (rule I_basic_frame [OF p(1)]) (simp_all add: s')
    have 2: "I_mutex s'" by (rule I_mutex_upd [OF p(2), of _ t "S_Unlock"]) (simp_all add: s' lk)
    have 3: "I_ret s'" by (intro I_ret_upd [OF p(3), of _ t "S_Unlock"]) (simp_all add: s')
    have 4: "I_body s'" by (simp add: I_body_def f acc)
    have 5: "I_chan s'" using p(5) by (simp add: I_chan_def f f0 acc)
    have 6: "I_rel cs0 s'" using p(6) by (simp add: I_rel_def f f0 acc)
    have 7: "I_err s'" using nr by (simp add: I_err_def f acc)
    have 8: "I_hb s'" using p(8) by (simp add: I_hb_def acc)
    have 9: "I_log cs0 s'" by (rule I_log_frame [OF p(9)]) (simp add: s')
    from 1 2 3 4 5 6 7 8 9 show ?thesis by (simp add: Inv_def)
  next
    case S_Unlock
    then have lk: "locked (pcs s t)" by simp
    note h = holder [OF p(2) lk]
    from fpc_holder [OF h] S_Unlock have f0: "fpc s = S_Unlock" by simp
    from p(4) f0 have d: "?D" by (auto simp: I_body_def)
    from st S_Unlock
    have s': "s' = s\<lparr>gen := (gen s)\<lparr>stopOnce := (stopOnce (gen s))\<lparr>once_m := None\<rparr>\<rparr>,
                       pcs := (pcs s)(t := S_Ret)\<rparr>"
      by (simp add: Stop_step_def Let_def)
    have f: "fpc s' = Idle" by (simp add: fpc_def s')
    have acc: "once_done (stopOnce (gen s')) = True" "stopChan (gen s') = stopChan (gen s)"
      "doneChan (gen s') = doneChan (gen s)" "stopErr (gen s') = stopErr (gen s)"
      "returns s' = returns s" "new_calls cs0 s' = new_calls cs0 s" "hb s' = hb s"
      by (simp_all add: s' new_calls_def d)
    have 1: "I_basic s'" by (rule I_basic_frame [OF p(1)]) (simp_all add: s')
    have 2: "I_mutex s'"
      unfolding I_mutex_def
    proof
      fix u
      from p(2) h have "locked (pcs s u) = (u = t)" by (auto simp: I_mutex_def)
      then show "locked (pcs s' u) = (once_m (stopOnce (gen s')) = Some u)"
        by (cases "u = t") (auto simp: s')
    qed
    have 3: "I_ret s'" using d by (intro I_ret_upd [OF p(3), of _ t "S_Ret"]) (simp_all add: s')
    have 4: "I_body s'" by (simp add: I_body_def f acc)
    have 5: "I_chan s'" using p(5) d by (simp add: I_chan_def f f0 acc)
    have 6: "I_rel cs0 s'" using p(6) d by (simp add: I_rel_def f f0 acc)
    have 7: "I_err s'" using p(7) d by (simp add: I_err_def f acc)
    have 8: "I_hb s'" using p(8) by (simp add: I_hb_def acc)
    have 9: "I_log cs0 s'" by (rule I_log_frame [OF p(9)]) (simp add: s')
    from 1 2 3 4 5 6 7 8 9 show ?thesis by (simp add: Inv_def)
  next
    case S_Ret
    then have nl: "\<not> locked (pcs s t)" by simp
    from p(3) S_Ret have d: "?D" by (auto simp: I_ret_def)
    from st S_Ret
    have s': "s' = s\<lparr>returns := returns s @ [(t, stopErr (gen s))], pcs := (pcs s)(t := Idle)\<rparr>"
      by (simp add: Stop_step_def Let_def)
    have f: "fpc s' = fpc s"
      by (rule fpc_other [OF not_holder [OF p(2) nl], of _ Idle]) (simp_all add: s')
    have n: "new_calls cs0 s' = new_calls cs0 s" by (rule new_calls_frame) (simp add: s')
    have acc: "once_done (stopOnce (gen s')) = True" "stopChan (gen s') = stopChan (gen s)"
      "doneChan (gen s') = doneChan (gen s)" "stopErr (gen s') = stopErr (gen s)"
      "returns s' = returns s @ [(t, stopErr (gen s))]" "hb s' = hb s"
      by (simp_all add: s' d)
    have 1: "I_basic s'" by (rule I_basic_frame [OF p(1)]) (simp_all add: s')
    have 2: "I_mutex s'" by (rule I_mutex_upd [OF p(2), of _ t Idle]) (simp_all add: s' nl)
    have 3: "I_ret s'" by (intro I_ret_upd [OF p(3), of _ t Idle]) (simp_all add: s')
    have 4: "I_body s'" by (rule I_body_frame [OF p(4) f]) (simp add: s')
    have 5: "I_chan s'" by (rule I_chan_frame [OF p(5) f]) (simp_all add: s')
    have 6: "I_rel cs0 s'" by (rule I_rel_frame [OF p(6) f]) (simp add: s', simp add: n)
    have 7: "I_err s'" using p(7) by (simp add: I_err_def f acc)
    have 8: "I_hb s'" by (rule I_hb_frame [OF p(8)]) (simp_all add: s')
    have 9: "I_log cs0 s'" by (rule I_log_frame [OF p(9)]) (simp add: s')
    from 1 2 3 4 5 6 7 8 9 show ?thesis by (simp add: Inv_def)
  qed
qed

lemma Inv_NextID:
  assumes inv: "Inv cs0 s"
    and s': "s' = s\<lparr>gen := (gen s)\<lparr>sf := e\<rparr>, world := (world s)\<lparr>ticks := k\<rparr>,
                     ids := ids s @ [x]\<rparr>"
  shows "Inv cs0 s'"
proof -
  note p = Inv_parts [OF inv]
  have f: "fpc s' = fpc s" by (rule fpc_frame) (simp_all add: s')
  have n: "new_calls cs0 s' = new_calls cs0 s" by (rule new_calls_frame) (simp add: s')
  have 1: "I_basic s'" by (rule I_basic_frame [OF p(1)]) (simp_all add: s')
  have 2: "I_mutex s'" by (rule I_mutex_frame [OF p(2)]) (simp_all add: s')
  have 3: "I_ret s'" by (rule I_ret_frame [OF p(3)]) (simp_all add: s')
  have 4: "I_body s'" by (rule I_body_frame [OF p(4) f]) (simp add: s')
  have 5: "I_chan s'" by (rule I_chan_frame [OF p(5) f]) (simp_all add: s')
  have 6: "I_rel cs0 s'" by (rule I_rel_frame [OF p(6) f]) (simp add: s', simp add: n)
  have 7: "I_err s'" by (rule I_err_frame [OF p(7) f]) (simp_all add: s')
  have 8: "I_hb s'" by (rule I_hb_frame [OF p(8)]) (simp_all add: s')
  have 9: "I_log cs0 s'" by (rule I_log_frame [OF p(9)]) (simp add: s')
  from 1 2 3 4 5 6 7 8 9 show ?thesis by (simp add: Inv_def)
qed

lemma Inv_step:
  assumes inv: "Inv cs0 s" and st: "step nx a s = Some s'"
  shows "Inv cs0 s'"
proof -
  from inv have nc: "\<not> crashed s" by (simp add: Inv_def I_basic_def)
  show ?thesis
  proof (cases a)
    case (Heartbeat sel)
    with st nc have "heartbeat sel s = Some s'" by (simp add: step_def)
    from Inv_heartbeat [OF inv this] show ?thesis .
  next
    case (Stop t ctx)
    with st nc have i: "pcs s t = Idle" and s': "s' = s\<lparr>pcs := (pcs s)(t := S_Do ctx)\<rparr>"
      by (auto simp: step_def split: stop_pc.splits)
    from i have nl: "\<not> locked (pcs s t)" by simp
    from Inv_unlocked_move [OF inv nl _ s'] show ?thesis by simp
  next
    case (Step t)
    with st nc have "Stop_step t s = Some s'" by (simp add: step_def)
    from Inv_Stop_step [OF inv this] show ?thesis .
  next
    case (NextID t)
    with st nc obtain res g' w' where
      g: "Generator_NextID nx (gen s) (world s) = Some (res, g', w')"
      and s': "s' = s\<lparr>gen := g', world := w', ids := ids s @ [(t, res)]\<rparr>"
      by (auto simp: step_def split: stop_pc.splits option.splits)
    from g obtain e k where "g' = (gen s)\<lparr>sf := e\<rparr>" "w' = (world s)\<lparr>ticks := k\<rparr>"
      by (auto simp: Generator_NextID_def split: option.splits)
    with s' have "s' = s\<lparr>gen := (gen s)\<lparr>sf := e\<rparr>, world := (world s)\<lparr>ticks := k\<rparr>,
                     ids := ids s @ [(t, res)]\<rparr>" by simp
    from Inv_NextID [OF inv this] show ?thesis .
  qed
qed

lemma Inv_run:
  "Inv cs0 s \<Longrightarrow> run nx as s = Some s' \<Longrightarrow> Inv cs0 s'"
proof (induction as arbitrary: s)
  case Nil
  then show ?case by simp
next
  case (Cons a as)
  from Cons.prems(2) obtain s1 where a: "step nx a s = Some s1" and b: "run nx as s1 = Some s'"
    by (auto split: option.splits)
  from Cons.IH [OF Inv_step [OF Cons.prems(1) a] b] show ?case .
qed

text \<open>What \<open>New\<close> returns on success.\<close>

lemma New_success:
  assumes "New sfNew ro opts w0 = (Inr g, w)"
  shows "\<not> stopChan g \<and> \<not> doneChan g \<and> \<not> once_done (stopOnce g) \<and> once_m (stopOnce g) = None
       \<and> stopErr g = None \<and> \<not> g_renewFreq g \<le>s 0 \<and> \<not> g_ttl g \<le>s g_renewFreq g
       \<and> \<not> machineID g <s 0 \<and> \<not> 65536 \<le>s machineID g
       \<and> (\<exists>rp. ro = Some rp \<and> repo g = rp)
       \<and> calls w = calls w0 @ [Acquire (WithTimeout Background (5 * Second)) (g_ttl g)]"
proof -
  from assms obtain rp where ro: "ro = Some rp" by (cases ro) (auto simp: New_def)
  obtain r1 w1 where a: "apply_opts opts defaultGeneratorConfig w0 = (r1, w1)"
    by (cases "apply_opts opts defaultGeneratorConfig w0")
  with assms ro obtain cfg where r1: "r1 = Inr cfg" by (cases r1) (auto simp: New_def)
  obtain r2 w2 where b: "validateConfig cfg w1 = (r2, w2)" by (cases "validateConfig cfg w1")
  with assms ro a r1 have r2: "r2 = None" by (cases r2) (auto simp: New_def)
  note v = validateConfig_None [OF b [unfolded r2]]
  from apply_opts_world [OF a] validateConfig_world [OF b]
  have k: "rstate w2 = rstate w0" "calls w2 = calls w0" by simp_all
  obtain r3 s3 where c: "AcquireMachineID rp (rstate w0)
       (WithTimeout Background (5 * Second)) (ttl cfg) = (r3, s3)"
    by (cases "AcquireMachineID rp (rstate w0) (WithTimeout Background (5 * Second)) (ttl cfg)")
  obtain r4 s4 where d: "ReleaseMachineID rp s3 (WithTimeout Background (5 * Second))
       (projr r3) = (r4, s4)"
    by (cases "ReleaseMachineID rp s3 (WithTimeout Background (5 * Second)) (projr r3)")
  from assms ro a r1 b r2 c d k v show ?thesis
    by (cases r3)
       (auto simp: New_def repo_Acquire_def repo_Release_def Let_def defaultBitsMachine_def
          split: if_splits sum.splits)
qed

lemma Inv_spawn:
  assumes "New sfNew ro opts w0 = (Inr g, w)"
  shows "Inv (calls w) (spawn g w)"
proof -
  note n = New_success [OF assms]
  have "fpc (spawn g w) = Idle" using n by (simp add: fpc_def spawn_def)
  moreover have "new_calls (calls w) (spawn g w) = []" by (simp add: new_calls_def spawn_def)
  ultimately show ?thesis using n
    by (simp add: Inv_def I_basic_def I_mutex_def I_ret_def I_body_def I_chan_def I_rel_def
         I_err_def I_hb_def I_log_def) (simp add: spawn_def)
qed

lemma run_append:
  "run nx (as @ bs) s = (case run nx as s of None \<Rightarrow> None | Some s' \<Rightarrow> run nx bs s')"
  by (induction as arbitrary: s) (auto split: option.splits)

lemma const_upd_same: "(\<lambda>_. c)(t := c) = (\<lambda>_. c)"
  by auto

lemma run_first_Stop:
  assumes "fresh g"
    and "ReleaseMachineID (repo g) (rstate w) ctx (machineID g) = (res, r')"
  shows "\<exists>s. run nx (first_Stop t ctx) (spawn g w) = Some s
       \<and> returns s = [(t, map_option (Errorf_w_v ErrReleaseMachineID) res)]
       \<and> stopErr (gen s) = map_option (Errorf_w_v ErrReleaseMachineID) res
       \<and> calls (world s) = calls w @ [Release ctx (machineID g)]
       \<and> once_done (stopOnce (gen s)) \<and> \<not> crashed s \<and> pcs s = (\<lambda>_. Idle)
       \<and> hb s = HB_TickerStop \<and> ids s = []"
  using assms
  by (cases res)
     (simp_all add: first_Stop_def step_def Stop_step_def heartbeat_def spawn_def Let_def
        repo_Release_def fresh_def const_upd_same)

lemma run_later_Stop:
  assumes "pcs s t = Idle" and "once_done (stopOnce (gen s))" and "\<not> crashed s"
  shows "run nx (later_Stop t ctx) s
           = Some (s\<lparr>returns := returns s @ [(t, stopErr (gen s))], pcs := (pcs s)(t := Idle)\<rparr>)"
  using assms
  by (simp add: later_Stop_def step_def Stop_step_def Let_def)

text \<open>
  Claim C1. \<open>Stop\<close> is idempotent. In every state that a Generator returned by \<open>New\<close>
  reaches, whatever the threads calling \<open>Stop\<close> and however their steps and those of
  the heartbeat interleave: \<open>ReleaseMachineID\<close> has been called at most once, and exactly
  once as soon as one call of \<open>Stop\<close> has returned; every result returned by \<open>Stop\<close> is
  the \<open>stopErr\<close> of the Generator, so all callers get the same result; a thread inside
  the teardown holds the mutex of the \<open>sync.Once\<close> and the \<open>Once\<close> is not done yet, so
  the teardown runs in one call only; and no step panics. Moreover \<open>Stop\<close> does return:
  when a thread calls it twice in a row, both calls return the result of the one release.
\<close>

theorem Stop_idempotent:
  assumes new: "New sfNew ro opts w0 = (Inr g, w)"
    and run: "run nx as (spawn g w) = Some s"
  shows "length (filter is_Release (new_calls (calls w) s)) \<le> 1
       \<and> (returns s \<noteq> [] \<longrightarrow> length (filter is_Release (new_calls (calls w) s)) = 1)
       \<and> (\<forall>x \<in> set (returns s). snd x = stopErr (gen s))
       \<and> (\<forall>x \<in> set (returns s). \<forall>y \<in> set (returns s). snd x = snd y)
       \<and> (\<forall>t. in_body (pcs s t) \<longrightarrow> once_m (stopOnce (gen s)) = Some t
                \<and> \<not> once_done (stopOnce (gen s)))
       \<and> \<not> crashed s
       \<and> (\<forall>t ctx res r'. ReleaseMachineID (repo g) (rstate w) ctx (machineID g) = (res, r')
            \<longrightarrow> (\<exists>s2. run nx (first_Stop t ctx @ later_Stop t ctx) (spawn g w) = Some s2
                  \<and> returns s2 = [(t, map_option (Errorf_w_v ErrReleaseMachineID) res),
                                  (t, map_option (Errorf_w_v ErrReleaseMachineID) res)]
                  \<and> new_calls (calls w) s2 = [Release ctx (machineID g)]))"
proof -
  from Inv_run [OF Inv_spawn [OF new] run] have inv: "Inv (calls w) s" .
  note p = Inv_parts [OF inv]
  from p(6) have 1: "length (filter is_Release (new_calls (calls w) s)) \<le> 1"
    by (simp add: I_rel_def)
  from p(6) p(7) have 2: "returns s \<noteq> [] \<longrightarrow>
      length (filter is_Release (new_calls (calls w) s)) = 1"
    by (simp add: I_rel_def I_err_def)
  from p(7) have 3: "\<forall>x \<in> set (returns s). snd x = stopErr (gen s)"
    by (simp add: I_err_def)
  then have 4: "\<forall>x \<in> set (returns s). \<forall>y \<in> set (returns s). snd x = snd y" by simp
  have 5: "\<forall>t. in_body (pcs s t) \<longrightarrow> once_m (stopOnce (gen s)) = Some t
                \<and> \<not> once_done (stopOnce (gen s))"
  proof (intro allI impI)
    fix t assume b: "in_body (pcs s t)"
    then have "locked (pcs s t)" by (cases "pcs s t") simp_all
    from holder [OF p(2) this] have h: "once_m (stopOnce (gen s)) = Some t" .
    from fpc_holder [OF h] b p(4) have "\<not> once_done (stopOnce (gen s))"
      by (auto simp: I_body_def)
    with h show "once_m (stopOnce (gen s)) = Some t \<and> \<not> once_done (stopOnce (gen s))" by simp
  qed
  from p(1) have 6: "\<not> crashed s" by (simp add: I_basic_def)
  have 7: "\<forall>t ctx res r'. ReleaseMachineID (repo g) (rstate w) ctx (machineID g) = (res, r')
            \<longrightarrow> (\<exists>s2. run nx (first_Stop t ctx @ later_Stop t ctx) (spawn g w) = Some s2
                  \<and> returns s2 = [(t, map_option (Errorf_w_v ErrReleaseMachineID) res),
                                  (t, map_option (Errorf_w_v ErrReleaseMachineID) res)]
                  \<and> new_calls (calls w) s2 = [Release ctx (machineID g)])"
  proof (intro allI impI)
    fix t ctx res r'
    assume rel: "ReleaseMachineID (repo g) (rstate w) ctx (machineID g) = (res, r')"
    from New_success [OF new] have fr: "fresh g" by (simp add: fresh_def)
    from run_first_Stop [OF fr rel, of nx t] obtain s1 where
      r1: "run nx (first_Stop t ctx) (spawn g w) = Some s1"
      and k: "returns s1 = [(t, map_option (Errorf_w_v ErrReleaseMachineID) res)]"
        "stopErr (gen s1) = map_option (Errorf_w_v ErrReleaseMachineID) res"
        "calls (world s1) = calls w @ [Release ctx (machineID g)]"
        "once_done (stopOnce (gen s1))" "\<not> crashed s1" "pcs s1 = (\<lambda>_. Idle)"
      by blast
    from k(6) have i: "pcs s1 t = Idle" by simp
    note r2 = run_later_Stop [OF i k(4) k(5), of nx ctx]
    show "\<exists>s2. run nx (first_Stop t ctx @ later_Stop t ctx) (spawn g w) = Some s2
                  \<and> returns s2 = [(t, map_option (Errorf_w_v ErrReleaseMachineID) res),
                                  (t, map_option (Errorf_w_v ErrReleaseMachineID) res)]
                  \<and> new_calls (calls w) s2 = [Release ctx (machineID g)]"
      using r1 r2 k by (simp add: run_append new_calls_def)
  qed
  from 1 2 3 4 5 6 7 show ?thesis by blast
qed









lemma demo_New:
  "New (\<lambda>st w. Inr ()) (Some (MockRepo (Inr 7) rel)) [] (world0 (defaultStartTime + 1))
     = (Inr (demo_Generator rel), demo_world)"
  by (simp add: New_def world0_def time_Now_def validateConfig_def defaultGeneratorConfig_def
      repo_Acquire_def MockRepo_def Let_def defaultBitsMachine_def demo_Generator_def
      demo_world_def Millisecond_def Second_def word_sless_alt word_sle_eq)

lemmas demo_simps =
  step_def Stop_step_def heartbeat_def spawn_def Let_def repo_Release_def repo_Renew_def
  demo_Generator_def demo_world_def MockRepo_def new_calls_def
  Second_def word_sless_alt word_sle_eq

theorem Stop_idempotent_witness:
  "\<exists>s. run (\<lambda>e c k. None) two_callers
          (spawn (demo_Generator (Some (Foreign ''connection refused''))) demo_world) = Some s
     \<and> returns s = [(1, Some (Errorf_w_v ErrReleaseMachineID (Foreign ''connection refused''))),
                    (0, Some (Errorf_w_v ErrReleaseMachineID (Foreign ''connection refused'')))]
     \<and> length (filter is_Release (new_calls (calls demo_world) s)) = 1"
proof -
  let ?g = "demo_Generator (Some (Foreign ''connection refused''))"
  obtain s where r: "run (\<lambda>e c k. None) two_callers (spawn ?g demo_world) = Some s"
    and k: "returns s = [(1, Some (Errorf_w_v ErrReleaseMachineID (Foreign ''connection refused''))),
                    (0, Some (Errorf_w_v ErrReleaseMachineID (Foreign ''connection refused'')))]"
    by (simp add: two_callers_def demo_simps)
  from Stop_idempotent [OF demo_New r] k
  have "length (filter is_Release (new_calls (calls demo_world) s)) = 1" by simp
  with r k show ?thesis by blast
qed


section \<open>Properties of the identifiers\<close>

lemma field_split:
  fixes a b c :: int
  assumes "0 \<le> b" "b < c"
  shows "(a * c + b) div c = a" and "(a * c + b) mod c = b"
  using assms by (simp_all add: div_pos_pos_trivial mod_pos_pos_trivial)

lemma fields_of_sum:
  fixes el mid sq :: int
  assumes "0 \<le> mid" "mid < 65536" "0 \<le> sq" "sq < 256"
  shows "(el * 16777216 + mid * 256 + sq) div 256 mod 65536 = mid"
    and "(el * 16777216 + mid * 256 + sq) div 16777216 = el"
    and "(el * 16777216 + mid * 256 + sq) mod 256 = sq"
proof -
  have e1: "el * 16777216 + mid * 256 + sq = (el * 65536 + mid) * 256 + sq" by simp
  have e2: "el * 16777216 + mid * 256 + sq = el * 16777216 + (mid * 256 + sq)" by simp
  from assms have b: "0 \<le> mid * 256 + sq" "mid * 256 + sq < 16777216" by simp_all
  show "(el * 16777216 + mid * 256 + sq) div 256 mod 65536 = mid"
    unfolding e1 field_split(1) [OF assms(3,4)] using field_split(2) [OF assms(1,2)] .
  show "(el * 16777216 + mid * 256 + sq) div 16777216 = el"
    unfolding e2 using field_split(1) [OF b] .
  show "(el * 16777216 + mid * 256 + sq) mod 256 = sq"
    unfolding e1 using field_split(2) [OF assms(3,4)] .
qed

lemma sint_word_of_int_small:
  fixes x :: int
  assumes "0 \<le> x" "x < 2 ^ 63"
  shows "sint (word_of_int x :: 64 word) = x"
  using assms by (simp add: sint_sbintrunc' signed_take_bit_int_eq_self)

lemma sint_toID:
  assumes "0 \<le> el" "el < 2 ^ 39" "0 \<le> mid" "mid < 65536" "0 \<le> sq" "sq < 256"
  shows "sint (toID el mid sq) = el * 16777216 + mid * 256 + sq"
proof -
  let ?x = "el * 16777216 + mid * 256 + sq"
  from assms have "0 \<le> ?x" by simp
  moreover from assms have "?x < 2 ^ 63" by simp
  ultimately have "sint (word_of_int ?x :: 64 word) = ?x"
    by (rule sint_word_of_int_small)
  moreover have "toID el mid sq = word_of_int ?x"
    unfolding toID_def defaultBitsMachine_def defaultBitsSequence_def by simp
  ultimately show ?thesis by simp
qed

lemma parts_toID:
  assumes "0 \<le> el" "el < 2 ^ 39" "0 \<le> mid" "mid < 65536" "0 \<le> sq" "sq < 256"
  shows "time_part (toID el mid sq) = el"
    and "machine_part (toID el mid sq) = mid"
    and "sequence_part (toID el mid sq) = sq"
proof -
  note s = sint_toID [OF assms]
  note f = fields_of_sum [OF assms(3-6), of el]
  show "time_part (toID el mid sq) = el"
    using f(2) by (simp add: time_part_def s defaultBitsMachine_def defaultBitsSequence_def)
  show "machine_part (toID el mid sq) = mid"
    using f(1) by (simp add: machine_part_def s defaultBitsMachine_def defaultBitsSequence_def)
  show "sequence_part (toID el mid sq) = sq"
    using f(3) by (simp add: sequence_part_def s defaultBitsMachine_def defaultBitsSequence_def)
qed

lemma bitsTime_eq: "(2::int) ^ bitsTime = 2 ^ 39"
  by (simp add: bitsTime_def defaultBitsMachine_def defaultBitsSequence_def)

lemma emit_success:
  assumes wf: "wf_sf new" and nn: "0 \<le> lastElapsed new"
    and em: "emit old new k = Some (Inr i, e', k')"
  shows "e' = new \<and> k' = k \<and> sint i = key new \<and> time_part i = lastElapsed new
       \<and> machine_part i = machine new \<and> sequence_part i = sequence new"
proof -
  from em have lt: "lastElapsed new < 2 ^ 39"
    and i: "i = toID (lastElapsed new) (machine new) (sequence new)"
    and e: "e' = new" "k' = k"
    by (auto simp: emit_def bitsTime_eq split: if_splits)
  from wf have b: "0 \<le> machine new" "machine new < 65536" "0 \<le> sequence new" "sequence new < 256"
    by (simp_all add: wf_sf_def)
  from sint_toID [OF nn lt b] parts_toID [OF nn lt b] i e show ?thesis
    by (simp add: key_def)
qed

lemma emit_failure:
  "emit old new k = Some (Inl x, e', k') \<Longrightarrow> e' = old"
  by (auto simp: emit_def split: if_splits)

lemma NextID_failure:
  "sonyflake_NextID e clk k = Some (Inl x, e', k') \<Longrightarrow> e' = e"
  by (auto simp: sonyflake_NextID_def Let_def split: if_splits option.splits dest: emit_failure)

lemma NextID_success:
  assumes wf: "wf_sf e" and nx: "sonyflake_NextID e clk k = Some (Inr i, e', k')"
  shows "wf_sf e' \<and> epoch e' = epoch e \<and> timeUnit e' = timeUnit e \<and> machine e' = machine e
       \<and> key e < key e' \<and> sint i = key e' \<and> machine_part i = machine e
       \<and> time_part i = lastElapsed e' \<and> sequence_part i = sequence e'"
proof -
  let ?now = "clk k"
  let ?el = "(?now - epoch e) div timeUnit e"
  from nx have ge: "epoch e \<le> ?now"
    by (auto simp: sonyflake_NextID_def Let_def split: if_splits)
  from wf have u: "0 < timeUnit e" and sq: "0 \<le> sequence e" "sequence e < 256"
    by (simp_all add: wf_sf_def)
  from ge u have el0: "0 \<le> ?el" by (simp add: pos_imp_zdiv_nonneg_iff)
  from nx ge have lt: "\<not> 2 ^ bitsTime \<le> ?el"
    by (auto simp: sonyflake_NextID_def Let_def split: if_splits)
  consider (same) "?el = lastElapsed e" "sequence e + 1 < 256"
      "emit e (e\<lparr>sequence := sequence e + 1\<rparr>) (Suc k) = Some (Inr i, e', k')"
    | (wrap) k2 where "?el = lastElapsed e" "\<not> sequence e + 1 < 256"
      "emit e (e\<lparr>lastElapsed := lastElapsed e + 1, sequence := 0\<rparr>) k2 = Some (Inr i, e', k')"
    | (later) "lastElapsed e < ?el"
      "emit e (e\<lparr>lastElapsed := ?el, sequence := 0\<rparr>) (Suc k) = Some (Inr i, e', k')"
    using nx ge lt
    by (auto simp: sonyflake_NextID_def Let_def defaultBitsSequence_def
          split: if_splits option.splits)
  then show ?thesis
  proof cases
    case same
    let ?n = "e\<lparr>sequence := sequence e + 1\<rparr>"
    from wf same(2) sq have w: "wf_sf ?n" by (simp add: wf_sf_def)
    from el0 same(1) have n0: "0 \<le> lastElapsed ?n" by simp
    from emit_success [OF w n0 same(3)] w show ?thesis by (simp add: key_def)
  next
    case wrap
    let ?n = "e\<lparr>lastElapsed := lastElapsed e + 1, sequence := 0\<rparr>"
    from wf have w: "wf_sf ?n" by (simp add: wf_sf_def)
    from el0 wrap(1) have n0: "0 \<le> lastElapsed ?n" by simp
    from emit_success [OF w n0 wrap(3)] w sq show ?thesis by (simp add: key_def)
  next
    case later
    let ?n = "e\<lparr>lastElapsed := ?el, sequence := 0\<rparr>"
    from wf have w: "wf_sf ?n" by (simp add: wf_sf_def)
    from el0 have n0: "0 \<le> lastElapsed ?n" by simp
    from later(1) have "(lastElapsed e + 1) * 16777216 \<le> ?el * 16777216" by simp
    with sq have "lastElapsed e * 16777216 + sequence e < ?el * 16777216" by simp
    with emit_success [OF w n0 later(2)] w show ?thesis by (simp add: key_def)
  qed
qed

lemma successes_snoc:
  "successes (rs @ [(t, r)]) = successes rs @ (case r of Inl x \<Rightarrow> [] | Inr i \<Rightarrow> [i])"
  by (induction rs rule: successes.induct) (auto split: sum.splits)

lemma heartbeat_sf:
  "heartbeat sel s = Some s' \<Longrightarrow> sf (gen s') = sf (gen s) \<and> ids s' = ids s
     \<and> machineID (gen s') = machineID (gen s)
     \<and> clock (world s') = clock (world s) \<and> ticks (world s') = ticks (world s)"
  by (cases "hb s"; cases sel)
     (auto simp: heartbeat_def Let_def repo_Renew_def split: if_splits prod.splits)

lemma Stop_step_sf:
  "Stop_step t s = Some s' \<Longrightarrow> sf (gen s') = sf (gen s) \<and> ids s' = ids s
     \<and> machineID (gen s') = machineID (gen s)
     \<and> clock (world s') = clock (world s) \<and> ticks (world s') = ticks (world s)"
  by (cases "pcs s t")
     (auto simp: Stop_step_def Let_def repo_Release_def split: if_splits prod.splits option.splits)

lemma step_other_sf:
  assumes "step nx a s = Some s'" and "\<not> is_NextID a"
  shows "sf (gen s') = sf (gen s) \<and> ids s' = ids s \<and> machineID (gen s') = machineID (gen s)
     \<and> clock (world s') = clock (world s) \<and> ticks (world s') = ticks (world s)"
proof (cases a)
  case (Heartbeat sel)
  with assms heartbeat_sf [of sel s s'] show ?thesis
    by (simp add: step_def split: if_splits)
next
  case (Stop t ctx)
  with assms show ?thesis
    by (auto simp: step_def split: if_splits stop_pc.splits)
next
  case (Step t)
  with assms Stop_step_sf [of t s s'] show ?thesis
    by (simp add: step_def split: if_splits)
next
  case (NextID t)
  with assms show ?thesis by (simp add: is_NextID_def)
qed

lemma step_NextID:
  assumes "step nx (NextID t) s = Some s'"
  shows "pcs s t = Idle \<and> \<not> crashed s \<and>
    (\<exists>res e k. nx (sf (gen s)) (clock (world s)) (ticks (world s)) = Some (res, e, k)
       \<and> s' = s\<lparr>gen := (gen s)\<lparr>sf := e\<rparr>, world := (world s)\<lparr>ticks := k\<rparr>,
                 ids := ids s @ [(t, res)]\<rparr>)"
  using assms
  by (auto simp: step_def Generator_NextID_def split: if_splits stop_pc.splits option.splits)

lemma J_step:
  assumes j: "J mid ep u s" and st: "step sonyflake_NextID a s = Some s'"
  shows "J mid ep u s'"
proof (cases "is_NextID a")
  case False
  from step_other_sf [OF st False] j show ?thesis by (simp add: J_def)
next
  case True
  then obtain t where a: "a = NextID t" by (cases a) (simp_all add: is_NextID_def)
  from step_NextID [OF st [unfolded a]] obtain res e k where
    n: "sonyflake_NextID (sf (gen s)) (clock (world s)) (ticks (world s)) = Some (res, e, k)"
    and s': "s' = s\<lparr>gen := (gen s)\<lparr>sf := e\<rparr>, world := (world s)\<lparr>ticks := k\<rparr>,
                 ids := ids s @ [(t, res)]\<rparr>"
    by blast
  have acc: "sf (gen s') = e" "ids s' = ids s @ [(t, res)]" by (simp_all add: s')
  from j have wf: "wf_sf (sf (gen s))" by (simp add: J_def)
  show ?thesis
  proof (cases res)
    case (Inl x)
    from NextID_failure [OF n [unfolded Inl]] have "e = sf (gen s)" .
    with j Inl show ?thesis by (simp add: J_def acc successes_snoc)
  next
    case (Inr i)
    note k = NextID_success [OF wf n [unfolded Inr]]
    from j k have old: "\<forall>y \<in> set (successes (ids s)). sint y < sint i \<and> sint y \<le> key e"
      by (auto simp: J_def)
    with j k Inr show ?thesis
      by (simp add: J_def acc successes_snoc sorted_wrt_append)
  qed
qed

lemma J_run:
  "J mid ep u s \<Longrightarrow> run sonyflake_NextID as s = Some s' \<Longrightarrow> J mid ep u s'"
proof (induction as arbitrary: s)
  case Nil
  then show ?case by simp
next
  case (Cons a as)
  from Cons.prems(2) obtain s1 where a: "step sonyflake_NextID a s = Some s1"
    and b: "run sonyflake_NextID as s1 = Some s'"
    by (auto split: option.splits)
  from Cons.IH [OF J_step [OF Cons.prems(1) a] b] show ?case .
qed

lemma New_success_sf:
  assumes "New sfNew ro opts w0 = (Inr g, w)"
  shows "(\<exists>w3. sfNew ((settings (requested opts))
                        \<lparr> MachineID := Some (\<lambda>_. Inr (machineID g)),
                          CheckMachineID := Some (\<lambda>i. i = machineID g) \<rparr>) w3 = Inr (sf g))
       \<and> \<not> TimeUnit (settings (requested opts)) <s Millisecond"
proof -
  from assms obtain rp where ro: "ro = Some rp" by (cases ro) (auto simp: New_def)
  obtain r1 w1 where a: "apply_opts opts defaultGeneratorConfig w0 = (r1, w1)"
    by (cases "apply_opts opts defaultGeneratorConfig w0")
  with assms ro obtain cfg where r1: "r1 = Inr cfg" by (cases r1) (auto simp: New_def)
  from apply_opts_assign [OF a [unfolded r1]] have rq: "cfg = requested opts"
    by (simp add: requested_def)
  obtain r2 w2 where b: "validateConfig cfg w1 = (r2, w2)" by (cases "validateConfig cfg w1")
  with assms ro a r1 have r2: "r2 = None" by (cases r2) (auto simp: New_def)
  note v = validateConfig_None [OF b [unfolded r2]]
  obtain r3 s3 where c: "AcquireMachineID rp (rstate w2)
       (WithTimeout Background (5 * Second)) (ttl cfg) = (r3, s3)"
    by (cases "AcquireMachineID rp (rstate w2) (WithTimeout Background (5 * Second)) (ttl cfg)")
  obtain r4 s4 where d: "ReleaseMachineID rp s3 (WithTimeout Background (5 * Second))
       (projr r3) = (r4, s4)"
    by (cases "ReleaseMachineID rp s3 (WithTimeout Background (5 * Second)) (projr r3)")
  from assms ro a r1 b r2 c d v rq show ?thesis
    by (cases r3)
       (auto simp: New_def repo_Acquire_def repo_Release_def Let_def
          split: if_splits sum.splits)
qed

lemma New_sonyflake:
  assumes "New sonyflake_New ro opts w0 = (Inr g, w)"
  shows "sf g = \<lparr> epoch = StartTime (settings (requested opts)),
                  timeUnit = sint (TimeUnit (settings (requested opts))),
                  lastElapsed = 0, sequence = 0, machine = sint (machineID g) \<rparr>
       \<and> 0 < sint (TimeUnit (settings (requested opts)))
       \<and> 0 \<le> sint (machineID g) \<and> sint (machineID g) < 65536"
proof -
  define st where "st = (settings (requested opts))
                        \<lparr> MachineID := Some (\<lambda>_. Inr (machineID g)),
                          CheckMachineID := Some (\<lambda>i. i = machineID g) \<rparr>"
  from New_success_sf [OF assms] obtain w3 :: "'a World" where
    "sonyflake_New st w3 = Inr (sf g)" "\<not> TimeUnit (settings (requested opts)) <s Millisecond"
    unfolding st_def by blast
  then have k: "sonyflake_New st w3 = Inr (sf g)"
      "StartTime st = StartTime (settings (requested opts))"
      "TimeUnit st = TimeUnit (settings (requested opts))"
      "MachineID st = Some (\<lambda>_. Inr (machineID g))"
      "CheckMachineID st = Some (\<lambda>i. i = machineID g)"
      "\<not> TimeUnit st <s Millisecond"
    by (simp_all add: st_def)
  from k(6) have "1000000 \<le> sint (TimeUnit st)"
    by (simp add: word_sless_alt Millisecond_def)
  then have u: "0 < sint (TimeUnit st)" by simp
  from New_success [OF assms] have "\<not> machineID g <s 0" "\<not> 65536 \<le>s machineID g" by simp_all
  then have m: "0 \<le> sint (machineID g)" "sint (machineID g) < 65536"
    by (simp_all add: word_sless_alt word_sle_eq)
  from k(1,4,5) have "sf g = \<lparr> epoch = StartTime st, timeUnit = sint (TimeUnit st),
                  lastElapsed = 0, sequence = 0, machine = sint (machineID g) \<rparr>"
    by (auto simp: sonyflake_New_def split: if_splits)
  with k(2,3) u m show ?thesis by simp
qed

lemma J_spawn:
  assumes "New sonyflake_New ro opts w0 = (Inr g, w)"
  shows "J (sint (machineID g)) (StartTime (settings (requested opts)))
           (sint (TimeUnit (settings (requested opts)))) (spawn g w)"
  using New_sonyflake [OF assms]
  by (simp add: J_def spawn_def wf_sf_def)


text \<open>
  The wait returns as soon as a clock reading reaches the target, and so \<open>NextID\<close>
  returns on every clock that gets past the current time unit.
\<close>

lemma await_unit_returns:
  "target \<le> (clk (k + n) - ep) div u
     \<Longrightarrow> \<exists>k'. await_unit clk ep u target k = Some k' \<and> k < k' \<and> k' \<le> Suc (k + n)"
proof (induction n arbitrary: k)
  case 0
  then show ?case by (subst await_unit.simps) simp
next
  case (Suc n)
  show ?case
  proof (cases "target \<le> (clk k - ep) div u")
    case True
    then show ?thesis by (subst await_unit.simps) simp
  next
    case False
    from Suc.prems have "target \<le> (clk (Suc k + n) - ep) div u" by simp
    from Suc.IH [OF this] obtain k' where
      "await_unit clk ep u target (Suc k) = Some k'" "Suc k < k'" "k' \<le> Suc (Suc k + n)"
      by blast
    with False show ?thesis by (subst await_unit.simps) simp
  qed
qed

lemma NextID_returns:
  assumes "lastElapsed e + 1 \<le> (clk (Suc k + n) - epoch e) div timeUnit e"
  shows "sonyflake_NextID e clk k \<noteq> None"
proof -
  from await_unit_returns [where clk = clk and k = "Suc k" and n = n, OF assms] obtain k' where
    "await_unit clk (epoch e) (timeUnit e) (lastElapsed e + 1) (Suc k) = Some k'" by blast
  then show ?thesis
    by (simp add: sonyflake_NextID_def Let_def emit_def)
qed

text \<open>
  The sequence wraps: with sequence 255 in time unit 3 and a clock that stays in that
  unit for two more readings, \<open>NextID\<close> waits for unit 4 and returns its first identifier.
\<close>

lemma NextID_wraps:
  "sonyflake_NextID
     \<lparr> epoch = 0, timeUnit = 10000000, lastElapsed = 3, sequence = 255, machine = 7 \<rparr>
     (\<lambda>n. 30000000 + int n * 4000000) 0
   = Some (Inr 67110656,
       \<lparr> epoch = 0, timeUnit = 10000000, lastElapsed = 4, sequence = 0, machine = 7 \<rparr>, 4)"
proof -
  have "await_unit (\<lambda>n. 30000000 + int n * 4000000) 0 10000000 4 (Suc 0) = Some 4"
    by (subst await_unit.simps, simp)+
  then show ?thesis
    by (simp add: sonyflake_NextID_def Let_def emit_def toID_def bitsTime_def
        defaultBitsMachine_def defaultBitsSequence_def)
qed


lemma sint_word_of_int_signed:
  fixes x :: int
  assumes "- (2 ^ 63) \<le> x" "x < 2 ^ 63"
  shows "sint (word_of_int x :: 64 word) = x"
  using assms by (simp add: sint_sbintrunc' signed_take_bit_int_eq_self)

lemma sint_time_part:
  "sint (word_of_int (time_part i) :: 64 word) = time_part i"
proof -
  have "- (2 ^ 63) \<le> sint i" "sint i < 2 ^ 63"
    using sint_ge [of i] sint_lt [of i] by simp_all
  then have "- (2 ^ 63) \<le> sint i div 16777216" "sint i div 16777216 < 2 ^ 63"
    by simp_all
  then show ?thesis
    by (intro sint_word_of_int_signed)
       (simp_all add: time_part_def defaultBitsMachine_def defaultBitsSequence_def)
qed

text \<open>
  Claim C8. For every identifier that a successful \<open>NextID\<close> has returned on a
  Generator returned by \<open>New\<close>, \<open>Decompose\<close> gives the machine ID leased by that
  Generator under \<open>machine-id\<close> and the identifier itself under \<open>id\<close>, and \<open>ToTime\<close>
  of the identifier is the epoch plus the \<open>time\<close> part of \<open>Decompose\<close> times the time
  unit.
\<close>

theorem Decompose_round_trip:
  assumes new: "New sonyflake_New ro opts w0 = (Inr g, w)"
    and run: "run sonyflake_NextID as (spawn g w) = Some s"
    and i: "i \<in> set (successes (ids s))"
  shows "Generator_Decompose sonyflake_Decompose (gen s) i ''machine-id'' = Some (machineID g)
       \<and> Generator_Decompose sonyflake_Decompose (gen s) i ''id'' = Some i
       \<and> (\<exists>tm. Generator_Decompose sonyflake_Decompose (gen s) i ''time'' = Some tm
            \<and> Generator_ToTime sonyflake_ToTime (gen s) i
                = StartTime (settings (requested opts))
                  + sint tm * sint (TimeUnit (settings (requested opts))))"
proof -
  from J_run [OF J_spawn [OF new] run]
  have j: "J (sint (machineID g)) (StartTime (settings (requested opts)))
           (sint (TimeUnit (settings (requested opts)))) s" .
  from j i have m: "machine_part i = sint (machineID g)" by (simp add: J_def)
  from j have e: "epoch (sf (gen s)) = StartTime (settings (requested opts))"
    "timeUnit (sf (gen s)) = sint (TimeUnit (settings (requested opts)))"
    by (simp_all add: J_def)
  have 1: "Generator_Decompose sonyflake_Decompose (gen s) i ''machine-id'' = Some (machineID g)"
    by (simp add: Generator_Decompose_def sonyflake_Decompose_def m)
  have 2: "Generator_Decompose sonyflake_Decompose (gen s) i ''id'' = Some i"
    by (simp add: Generator_Decompose_def sonyflake_Decompose_def)
  have 3: "Generator_Decompose sonyflake_Decompose (gen s) i ''time''
             = Some (word_of_int (time_part i))"
    by (simp add: Generator_Decompose_def sonyflake_Decompose_def)
  have 4: "Generator_ToTime sonyflake_ToTime (gen s) i
                = StartTime (settings (requested opts))
                  + sint (word_of_int (time_part i) :: 64 word)
                    * sint (TimeUnit (settings (requested opts)))"
    by (simp add: Generator_ToTime_def sonyflake_ToTime_def e sint_time_part)
  from 1 2 3 4 show ?thesis by blast
qed




lemma ticking_New:
  "New sonyflake_New (Some (MockRepo (Inr 7) None)) [] ticking_world
     = (Inr ticking_Generator, ticking_started)"
  by (simp add: New_def ticking_world_def time_Now_def validateConfig_def
      defaultGeneratorConfig_def repo_Acquire_def MockRepo_def Let_def defaultBitsMachine_def
      ticking_Generator_def ticking_started_def sonyflake_New_def defaultStartTime_def
      Millisecond_def Second_def word_sless_alt word_sle_eq)

lemmas ticking_simps =
  step_def Stop_step_def heartbeat_def spawn_def Let_def repo_Release_def repo_Renew_def
  Generator_NextID_def sonyflake_NextID_def emit_def toID_def bitsTime_def
  defaultBitsMachine_def defaultBitsSequence_def defaultStartTime_def
  ticking_Generator_def ticking_started_def ticking_world_def MockRepo_def
  Second_def word_sless_alt word_sle_eq


theorem Decompose_round_trip_witness:
  "\<exists>s. run sonyflake_NextID [NextID 0, NextID 1, NextID 0]
          (spawn ticking_Generator ticking_started) = Some s
     \<and> successes (ids s) = [33556224, 50333440, 50333441]
     \<and> Generator_Decompose sonyflake_Decompose (gen s) 50333441 ''machine-id'' = Some 7
     \<and> Generator_Decompose sonyflake_Decompose (gen s) 50333441 ''time'' = Some 3
     \<and> Generator_Decompose sonyflake_Decompose (gen s) 50333441 ''sequence'' = Some 1
     \<and> Generator_ToTime sonyflake_ToTime (gen s) 50333441 = defaultStartTime + 3 * 10000000"
proof -
  obtain s where r: "run sonyflake_NextID [NextID 0, NextID 1, NextID 0]
          (spawn ticking_Generator ticking_started) = Some s"
    and k: "successes (ids s) = [33556224, 50333440, 50333441]"
    by (simp add: ticking_simps)
  from k have i: "50333441 \<in> set (successes (ids s))" by simp
  note t = Decompose_round_trip [OF ticking_New r i]
  have m: "machineID ticking_Generator = 7" by (simp add: ticking_Generator_def)
  have p: "time_part 50333441 = 3" "sequence_part 50333441 = 1"
    by (simp_all add: time_part_def sequence_part_def defaultBitsMachine_def
         defaultBitsSequence_def)
  have q: "StartTime (settings (requested [])) = defaultStartTime"
    "sint (TimeUnit (settings (requested []))) = 10000000"
    by (simp_all add: requested_def defaultGeneratorConfig_def Millisecond_def)
  from t have 1: "Generator_Decompose sonyflake_Decompose (gen s) 50333441 ''machine-id'' = Some 7"
    by (simp add: m)
  have 2: "Generator_Decompose sonyflake_Decompose (gen s) 50333441 ''time'' = Some 3"
    "Generator_Decompose sonyflake_Decompose (gen s) 50333441 ''sequence'' = Some 1"
    by (simp_all add: Generator_Decompose_def sonyflake_Decompose_def p)
  from t 2(1) have 3: "Generator_ToTime sonyflake_ToTime (gen s) 50333441
      = defaultStartTime + 3 * 10000000"
    by (simp add: q)
  from r k 1 2 3 show ?thesis by blast
qed


end
